theory Spec2Isabelle
  imports Complex_Main "HOL-Library.AList"
begin

section \<open>Numbers, balances, ranges\<close>

text \<open>
  The TypeScript \<^verbatim>\<open>number\<close> is an IEEE double. It is modelled as an exact \<^typ>\<open>real\<close>:
  the definitions below agree with the code up to rounding, and wherever no divisor is
  zero and no square root is taken of a negative number (the code then continues with
  \<^verbatim>\<open>Infinity\<close> or \<^verbatim>\<open>NaN\<close>, which \<^typ>\<open>real\<close> has not). Where the code can
  come back from such a value to a finite one, the model follows it: in
  \<^verbatim>\<open>getMaxLiquidity\<close>, through the type \<open>number\<close> below, and in \<^verbatim>\<open>buyX\<close> and
  \<^verbatim>\<open>sellX\<close>, where \<^verbatim>\<open>Math.min\<close> or \<^verbatim>\<open>Math.max\<close> drops an infinite step. Where the
  code keeps such a value, the model stops with the outcome \<open>NonFinite\<close>.

  \<^verbatim>\<open>Balance = {x, y}\<close>; the fields are called \<open>amount_x\<close> and \<open>amount_y\<close> here.
  \<^verbatim>\<open>Range = [number, number]\<close> is a pair: \<open>r[0]\<close> is \<open>fst r\<close>, \<open>r[1]\<close> is \<open>snd r\<close>.
\<close>

record Balance =
  amount_x :: real
  amount_y :: real

type_synonym Range = "real \<times> real"

datatype Direction = UP | DOWN

datatype Token = TokenX | TokenY

text \<open>The messages of the \<^verbatim>\<open>Error\<close>s the pool throws, one constructor each:
  "Position doesn't exist", "Out of range, no liquidity.", "Can't sell a negative amount",
  "Can't buy a negative amount", "Not enough liquidity."; \<open>NonFinite\<close> is not thrown by
  the code: it marks a run that leaves the finite numbers.\<close>

datatype error =
    PositionDoesntExist
  | OutOfRange
  | CantSellNegative
  | CantBuyNegative
  | NotEnoughLiquidity
  | NonFinite

section \<open>Liquidity math (utils)\<close>

definition toSqrtRange :: "Range \<Rightarrow> Range" where
  "toSqrtRange input = (sqrt (fst input), sqrt (snd input))"

definition getLiquidity :: "Balance \<Rightarrow> Range \<Rightarrow> real" where
  "getLiquidity tokens r =
     (let pa = fst r; pb = snd r;
          a = pa / pb - 1;
          b = amount_x tokens * pa + amount_y tokens / pb;
          c = amount_x tokens * amount_y tokens;
          D = sqrt (b ^ 2 - 4 * a * c)
      in (- b - D) / (2 * a))"

definition getTokenAmounts :: "real \<Rightarrow> Range \<Rightarrow> real \<Rightarrow> Balance" where
  "getTokenAmounts liq sr sp =
     (let clampedSqrtPrice =
            (if sp > snd sr then snd sr
             else if sp < fst sr then fst sr
             else sp)
      in \<lparr> amount_x = liq / clampedSqrtPrice - liq / snd sr,
           amount_y = liq * clampedSqrtPrice - liq * fst sr \<rparr>)"

text \<open>\<^verbatim>\<open>Number.EPSILON\<close> is \<open>2\<^sup>-\<^sup>5\<^sup>2\<close>.\<close>

definition EPSILON :: real where
  "EPSILON = 1 / 2 ^ 52"

subsection \<open>Numbers that may be infinite or NaN\<close>

text \<open>
  \<^verbatim>\<open>getMaxLiquidity\<close> divides by the token amounts of the deposit, which may be zero,
  and compares the quotients: an infinite quotient or a \<^verbatim>\<open>NaN\<close> decides the branch, and
  the result may be finite again. Its arithmetic is therefore done on \<open>number\<close>: a real,
  \<^verbatim>\<open>Infinity\<close>, \<^verbatim>\<open>-Infinity\<close> or \<^verbatim>\<open>NaN\<close>, with the rules of IEEE 754 for these
  (rounding and overflow apart). A zero is \<open>+0\<close>: a non-zero number divided by zero has
  its own sign.
\<close>

datatype number = Num real | PosInfinity | NegInfinity | NaN

fun js_neg :: "number \<Rightarrow> number" where
  "js_neg (Num a) = Num (- a)"
| "js_neg PosInfinity = NegInfinity"
| "js_neg NegInfinity = PosInfinity"
| "js_neg NaN = NaN"

fun js_add :: "number \<Rightarrow> number \<Rightarrow> number" where
  "js_add (Num a) (Num b) = Num (a + b)"
| "js_add NaN v = NaN"
| "js_add v NaN = NaN"
| "js_add PosInfinity NegInfinity = NaN"
| "js_add NegInfinity PosInfinity = NaN"
| "js_add PosInfinity v = PosInfinity"
| "js_add v PosInfinity = PosInfinity"
| "js_add NegInfinity v = NegInfinity"
| "js_add v NegInfinity = NegInfinity"

definition js_sub :: "number \<Rightarrow> number \<Rightarrow> number" where
  "js_sub u v = js_add u (js_neg v)"

fun js_mul :: "number \<Rightarrow> number \<Rightarrow> number" where
  "js_mul (Num a) (Num b) = Num (a * b)"
| "js_mul NaN v = NaN"
| "js_mul v NaN = NaN"
| "js_mul (Num a) PosInfinity =
     (if a > 0 then PosInfinity else if a < 0 then NegInfinity else NaN)"
| "js_mul (Num a) NegInfinity =
     (if a > 0 then NegInfinity else if a < 0 then PosInfinity else NaN)"
| "js_mul PosInfinity (Num b) =
     (if b > 0 then PosInfinity else if b < 0 then NegInfinity else NaN)"
| "js_mul NegInfinity (Num b) =
     (if b > 0 then NegInfinity else if b < 0 then PosInfinity else NaN)"
| "js_mul PosInfinity PosInfinity = PosInfinity"
| "js_mul NegInfinity NegInfinity = PosInfinity"
| "js_mul PosInfinity NegInfinity = NegInfinity"
| "js_mul NegInfinity PosInfinity = NegInfinity"

fun js_div :: "number \<Rightarrow> number \<Rightarrow> number" where
  "js_div (Num a) (Num b) =
     (if b \<noteq> 0 then Num (a / b)
      else if a > 0 then PosInfinity else if a < 0 then NegInfinity else NaN)"
| "js_div NaN v = NaN"
| "js_div v NaN = NaN"
| "js_div (Num a) PosInfinity = Num 0"
| "js_div (Num a) NegInfinity = Num 0"
| "js_div PosInfinity (Num b) = (if b < 0 then NegInfinity else PosInfinity)"
| "js_div NegInfinity (Num b) = (if b < 0 then PosInfinity else NegInfinity)"
| "js_div PosInfinity PosInfinity = NaN"
| "js_div PosInfinity NegInfinity = NaN"
| "js_div NegInfinity PosInfinity = NaN"
| "js_div NegInfinity NegInfinity = NaN"

fun js_sqrt :: "number \<Rightarrow> number" where
  "js_sqrt (Num a) = (if a < 0 then NaN else Num (sqrt a))"
| "js_sqrt PosInfinity = PosInfinity"
| "js_sqrt NegInfinity = NaN"
| "js_sqrt NaN = NaN"

text \<open>The comparison \<^verbatim>\<open><\<close>: false when one side is \<^verbatim>\<open>NaN\<close>.\<close>

fun js_lt :: "number \<Rightarrow> number \<Rightarrow> bool" where
  "js_lt (Num a) (Num b) = (a < b)"
| "js_lt NaN v = False"
| "js_lt v NaN = False"
| "js_lt PosInfinity v = False"
| "js_lt NegInfinity NegInfinity = False"
| "js_lt NegInfinity v = True"
| "js_lt (Num a) PosInfinity = True"
| "js_lt (Num a) NegInfinity = False"

text \<open>\<^verbatim>\<open>getLiquidity\<close> and \<^verbatim>\<open>getTokenAmounts\<close> again, as \<^verbatim>\<open>getMaxLiquidity\<close> calls
  them: on token amounts and on a liquidity that may be infinite or \<^verbatim>\<open>NaN\<close>.\<close>

definition getLiquidityN :: "number \<times> number \<Rightarrow> Range \<Rightarrow> number" where
  "getLiquidityN tokens r =
     (let x = fst tokens; y = snd tokens;
          pa = Num (fst r); pb = Num (snd r);
          a = js_sub (js_div pa pb) (Num 1);
          b = js_add (js_mul x pa) (js_div y pb);
          c = js_mul x y;
          D = js_sqrt (js_sub (js_mul b b) (js_mul (js_mul (Num 4) a) c))
      in js_div (js_sub (js_neg b) D) (js_mul (Num 2) a))"

definition getTokenAmountsN :: "number \<Rightarrow> Range \<Rightarrow> real \<Rightarrow> number \<times> number" where
  "getTokenAmountsN liq sr sp =
     (let clampedSqrtPrice =
            (if sp > snd sr then snd sr
             else if sp < fst sr then fst sr
             else sp)
      in (js_sub (js_div liq (Num clampedSqrtPrice)) (js_div liq (Num (snd sr))),
          js_sub (js_mul liq (Num clampedSqrtPrice)) (js_mul liq (Num (fst sr)))))"

definition getMaxLiquidity :: "Balance \<Rightarrow> Range \<Rightarrow> real \<Rightarrow> number" where
  "getMaxLiquidity tokens sr sp =
     (let tokens_x = Num (amount_x tokens); tokens_y = Num (amount_y tokens);
          tokensRebalanced = getTokenAmountsN (getLiquidityN (tokens_x, tokens_y) sr) sr sp;
          ratio_x = js_div (fst tokensRebalanced) tokens_x;
          ratio_y = js_div (snd tokensRebalanced) tokens_y;
          deposited =
            (if js_lt ratio_x ratio_y
             then (js_mul (js_div (fst tokensRebalanced) (snd tokensRebalanced)) tokens_y,
                   tokens_y)
             else (tokens_x,
                   js_mul (js_div (snd tokensRebalanced) (fst tokensRebalanced)) tokens_x))
      in js_sub (getLiquidityN deposited sr) (Num (1000 * EPSILON)))"

section \<open>Positions\<close>

text \<open>
  \<^verbatim>\<open>ConcentratedLiquidityPosition\<close>. The field \<^verbatim>\<open>id\<close> is \<open>id_pos\<close>. The back
  reference \<^verbatim>\<open>liquidityPool\<close> is only read for the pool's \<^verbatim>\<open>sqrtPrice\<close>, which
  \<open>balance\<close> takes as an argument.
\<close>

record Position =
  id_pos :: string
  sqrtRange :: Range
  liquidity :: real
  initialBalance :: Balance
  rewards :: Balance

definition balance :: "Position \<Rightarrow> real \<Rightarrow> Balance" where
  "balance position poolSqrtPrice =
     getTokenAmounts (liquidity position) (sqrtRange position) poolSqrtPrice"

text \<open>What \<^verbatim>\<open>enterPosition\<close> passes to the constructor besides the range:
  either \<^verbatim>\<open>liquidity\<close> or \<^verbatim>\<open>balance\<close>.\<close>

datatype Deposit = ByLiquidity real | ByBalance Balance

text \<open>The constructor, called with a price-space \<^verbatim>\<open>range\<close> (\<open>rng\<close> below). The id is
  \<^verbatim>\<open>randomUUID()\<close> in the code and an argument here. When \<^verbatim>\<open>getMaxLiquidity\<close> gives
  \<^verbatim>\<open>Infinity\<close> or \<^verbatim>\<open>NaN\<close>, the code makes a position of that liquidity: it is
  \<open>NonFinite\<close> here.\<close>

definition newPosition :: "string \<Rightarrow> real \<Rightarrow> Range \<Rightarrow> Deposit \<Rightarrow> error + Position" where
  "newPosition newId poolSqrtPrice rng dep =
     (let sr = (sqrt (fst rng), sqrt (snd rng)) in
      case (case dep of
              ByLiquidity l \<Rightarrow> Num l
            | ByBalance b \<Rightarrow> getMaxLiquidity b sr poolSqrtPrice) of
        Num liq \<Rightarrow>
          (let bal = getTokenAmounts liq sr poolSqrtPrice
           in Inr \<lparr> id_pos = newId,
                    sqrtRange = sr,
                    liquidity = liq,
                    initialBalance =
                      (case dep of
                         ByBalance b \<Rightarrow> \<lparr> amount_x = min (amount_x bal) (amount_x b),
                                         amount_y = min (amount_y bal) (amount_y b) \<rparr>
                       | ByLiquidity l \<Rightarrow> bal),
                    rewards = \<lparr> amount_x = 0, amount_y = 0 \<rparr> \<rparr>)
      | PosInfinity \<Rightarrow> Inl NonFinite
      | NegInfinity \<Rightarrow> Inl NonFinite
      | NaN \<Rightarrow> Inl NonFinite)"

section \<open>The pool\<close>

text \<open>
  \<^verbatim>\<open>positions\<close> is a JavaScript \<^verbatim>\<open>Map\<close>, which iterates in insertion order: an
  association list, with \<^verbatim>\<open>set\<close> as \<^const>\<open>AList.update\<close> (replace in place, or
  append), \<^verbatim>\<open>get\<close> as \<^const>\<open>map_of\<close> and \<^verbatim>\<open>delete\<close> as \<^const>\<open>AList.delete\<close>.
\<close>

record Pool =
  positions :: "(string \<times> Position) list"
  sqrtPrice :: real
  feeRate :: real

text \<open>The constructor; \<^verbatim>\<open>initialPrice\<close> defaults to 1 and \<^verbatim>\<open>feeRate\<close> to 0.\<close>

definition newPool :: "real \<Rightarrow> real \<Rightarrow> Pool" where
  "newPool initialPrice fr = \<lparr> positions = [], sqrtPrice = sqrt initialPrice, feeRate = fr \<rparr>"

definition price :: "Pool \<Rightarrow> real" where
  "price pool = sqrtPrice pool ^ 2"

text \<open>\<^verbatim>\<open>enterPosition\<close> returns the position and registers it under its id. Nothing
  is registered when the liquidity of the deposit is not finite (the code registers a
  position whose liquidity is \<^verbatim>\<open>Infinity\<close> or \<^verbatim>\<open>NaN\<close>).\<close>

definition enterPosition :: "Pool \<Rightarrow> string \<Rightarrow> Range \<Rightarrow> Deposit \<Rightarrow> (error + Position) \<times> Pool" where
  "enterPosition pool newId rng dep =
     (case newPosition newId (sqrtPrice pool) rng dep of
        Inl e \<Rightarrow> (Inl e, pool)
      | Inr position \<Rightarrow>
          (Inr position,
           pool \<lparr> positions := AList.update (id_pos position) position (positions pool) \<rparr>))"

definition exitPosition :: "Pool \<Rightarrow> string \<Rightarrow> (error + Balance) \<times> Pool" where
  "exitPosition pool i =
     (case map_of (positions pool) i of
        None \<Rightarrow> (Inl PositionDoesntExist, pool)
      | Some position \<Rightarrow>
          (Inr \<lparr> amount_x = amount_x (balance position (sqrtPrice pool))
                             + amount_x (rewards position),
                 amount_y = amount_y (balance position (sqrtPrice pool))
                             + amount_y (rewards position) \<rparr>,
           pool \<lparr> positions := AList.delete i (positions pool) \<rparr>))"

definition getPosition :: "Pool \<Rightarrow> string \<Rightarrow> Position option" where
  "getPosition pool i = map_of (positions pool) i"

text \<open>The filter predicate of \<^verbatim>\<open>getPositionsInRange\<close>.\<close>

definition inRange :: "Direction \<Rightarrow> real \<Rightarrow> Position \<Rightarrow> bool" where
  "inRange dir sp position =
     (if dir = DOWN
      then sp > fst (sqrtRange position) \<and> sp \<le> snd (sqrtRange position)
      else sp \<ge> fst (sqrtRange position) \<and> sp < snd (sqrtRange position))"

definition getPositionsInRange :: "Pool \<Rightarrow> Direction \<Rightarrow> Position list" where
  "getPositionsInRange pool dir =
     filter (inRange dir (sqrtPrice pool)) (map snd (positions pool))"

definition getLiquidityInCurrentRange :: "Pool \<Rightarrow> Direction \<Rightarrow> real" where
  "getLiquidityInCurrentRange pool dir =
     foldl (\<lambda>liq position. liq + liquidity position) 0 (getPositionsInRange pool dir)"

text \<open>The reducer of \<^verbatim>\<open>getCurrentRange\<close>, from \<^verbatim>\<open>null\<close>.\<close>

definition narrow :: "Range option \<Rightarrow> Range \<Rightarrow> Range option" where
  "narrow currentRange rng =
     (case currentRange of
        None \<Rightarrow> Some rng
      | Some cur \<Rightarrow> Some (max (fst cur) (fst rng), min (snd cur) (snd rng)))"

definition getCurrentRange :: "Pool \<Rightarrow> Direction \<Rightarrow> error + Range" where
  "getCurrentRange pool dir =
     (case foldl narrow None (map sqrtRange (getPositionsInRange pool dir)) of
        None \<Rightarrow> Inl OutOfRange
      | Some currentRange \<Rightarrow> Inr currentRange)"

definition addReward :: "Token \<Rightarrow> real \<Rightarrow> Position \<Rightarrow> Position" where
  "addReward token feesForPosition position =
     (if token = TokenX
      then position \<lparr> rewards := (rewards position)
             \<lparr> amount_x := amount_x (rewards position) + feesForPosition \<rparr> \<rparr>
      else position \<lparr> rewards := (rewards position)
             \<lparr> amount_y := amount_y (rewards position) + feesForPosition \<rparr> \<rparr>)"

text \<open>\<^verbatim>\<open>addFeesToPositions\<close> updates, in place, the positions that
  \<^verbatim>\<open>getPositionsInRange(direction)\<close> returns.\<close>

definition addFeesToPositions :: "Pool \<Rightarrow> real \<Rightarrow> real \<Rightarrow> Token \<Rightarrow> Direction \<Rightarrow> Pool" where
  "addFeesToPositions pool feesToSplit totalLiquidity token direction =
     pool \<lparr> positions :=
       map (\<lambda>(i, position).
              (i, if inRange direction (sqrtPrice pool) position
                  then addReward token
                         ((liquidity position / totalLiquidity) * feesToSplit) position
                  else position))
           (positions pool) \<rparr>"

definition getDInvSqrtPrice :: "Pool \<Rightarrow> real \<Rightarrow> real" where
  "getDInvSqrtPrice pool dSqrtPrice =
     - dSqrtPrice / (sqrtPrice pool ^ 2 + sqrtPrice pool * dSqrtPrice)"

definition getDSqrtPrice :: "Pool \<Rightarrow> real \<Rightarrow> real" where
  "getDSqrtPrice pool dInvSqrtPrice =
     - dInvSqrtPrice * (sqrtPrice pool ^ 2 / (1 + dInvSqrtPrice * sqrtPrice pool))"

section \<open>The current range and the liquidity in it\<close>

lemma foldl_narrow_Some:
  "foldl narrow (Some c) rs =
     Some (Max (insert (fst c) (fst ` set rs)), Min (insert (snd c) (snd ` set rs)))"
proof (induction rs arbitrary: c)
  case Nil
  then show ?case by simp
next
  case (Cons r rs)
  have a: "Max (insert (max (fst c) (fst r)) (fst ` set rs)) = Max (insert (fst c) (insert (fst r) (fst ` set rs)))"
    by (cases "rs = []") (simp_all add: max.assoc)
  have b: "Min (insert (min (snd c) (snd r)) (snd ` set rs)) = Min (insert (snd c) (insert (snd r) (snd ` set rs)))"
    by (cases "rs = []") (simp_all add: min.assoc)
  have n: "narrow (Some c) r = Some (max (fst c) (fst r), min (snd c) (snd r))"
    by (simp add: narrow_def)
  have "foldl narrow (Some c) (r # rs) = foldl narrow (Some (max (fst c) (fst r), min (snd c) (snd r))) rs"
    by (simp add: n)
  also have "\<dots> = Some (Max (insert (max (fst c) (fst r)) (fst ` set rs)),
                         Min (insert (min (snd c) (snd r)) (snd ` set rs)))"
    by (simp add: Cons.IH)
  finally show ?case by (simp only: a b list.set image_insert)
qed

lemma foldl_narrow_None:
  "foldl narrow None rs =
     (if rs = [] then None else Some (Max (fst ` set rs), Min (snd ` set rs)))"
proof (cases rs)
  case Nil
  then show ?thesis by simp
next
  case (Cons r rs')
  have "narrow None r = Some r" by (simp add: narrow_def)
  then show ?thesis by (simp add: Cons foldl_narrow_Some)
qed

lemma getCurrentRange_eq:
  "getCurrentRange pool dir =
     (if getPositionsInRange pool dir = [] then Inl OutOfRange
      else Inr (Max ((fst \<circ> sqrtRange) ` set (getPositionsInRange pool dir)),
                Min ((snd \<circ> sqrtRange) ` set (getPositionsInRange pool dir))))"
  by (simp add: getCurrentRange_def foldl_narrow_None image_comp)

lemma foldl_add_liquidity:
  "foldl (\<lambda>liq position. liq + liquidity position) a ps = a + sum_list (map liquidity ps)"
  by (induction ps arbitrary: a) simp_all

lemma getLiquidityInCurrentRange_sum:
  "getLiquidityInCurrentRange pool dir = sum_list (map liquidity (getPositionsInRange pool dir))"
  by (simp add: getLiquidityInCurrentRange_def foldl_add_liquidity)

section \<open>The trades\<close>

text \<open>
  Each trade is a \<^verbatim>\<open>while\<close> loop over segments. The body of the loop is the
  \<open>_segment\<close> function: it returns the error thrown, or the pool and the two running
  amounts \<open>dX\<close>, \<open>dY\<close> at the end of the pass. The loop returns the pool as the call
  leaves it, with the value returned or the error thrown: an exception does not undo the
  assignments made before it.

  A pass in which the code would divide by zero (the divisor of \<^verbatim>\<open>getDInvSqrtPrice\<close>
  or \<open>1 - feeRate\<close>) ends the run with \<open>NonFinite\<close> and the pool as it was before that
  pass; the code goes on with \<^verbatim>\<open>Infinity\<close> or \<^verbatim>\<open>NaN\<close>. So does a pass in which
  the divisor of \<^verbatim>\<open>getDSqrtPrice\<close> is zero, unless \<^verbatim>\<open>Math.min\<close> or \<^verbatim>\<open>Math.max\<close>
  then takes the bound of the range: that pass is completed, as in the code. The other
  divisors are the liquidity and the amount left, which the code has checked.

  Termination: a pass that leaves something to trade ends on the bound of the current
  range, beyond which fewer positions lie.
\<close>

definition sellY_segment :: "real \<Rightarrow> Pool \<Rightarrow> real \<Rightarrow> real \<Rightarrow> error + (Pool \<times> real \<times> real)" where
  "sellY_segment fees pool dX dY =
     (case getCurrentRange pool UP of
        Inl e \<Rightarrow> Inl e
      | Inr currentRange \<Rightarrow>
          (let liq = getLiquidityInCurrentRange pool UP in
           if liq = 0 then Inl NotEnoughLiquidity
           else
             (let dSqrtPrice = min (dY / liq) (snd currentRange - sqrtPrice pool) in
              if sqrtPrice pool ^ 2 + sqrtPrice pool * dSqrtPrice = 0 then Inl NonFinite
              else
                (let dYPartial = dSqrtPrice * liq;
                     dXPartial = liq * getDInvSqrtPrice pool dSqrtPrice;
                     partialFees = (fees * dYPartial) / dY;
                     pool' = addFeesToPositions pool partialFees liq TokenY UP
                 in Inr (pool' \<lparr> sqrtPrice := sqrtPrice pool' + dSqrtPrice \<rparr>,
                         dX + dXPartial, dY - dYPartial)))))"

text \<open>The number of positions whose upper bound lies above the price, and of those
  whose lower bound lies below it: the measures of the loops.\<close>

definition upperAbove :: "Pool \<Rightarrow> nat" where
  "upperAbove pool = length (filter (\<lambda>q. sqrtPrice pool < snd (sqrtRange q)) (map snd (positions pool)))"

definition lowerBelow :: "Pool \<Rightarrow> nat" where
  "lowerBelow pool = length (filter (\<lambda>q. fst (sqrtRange q) < sqrtPrice pool) (map snd (positions pool)))"

lemma sqrtRange_addReward [simp]: "sqrtRange (addReward t f q) = sqrtRange q"
  by (simp add: addReward_def)

lemma liquidity_addReward [simp]: "liquidity (addReward t f q) = liquidity q"
  by (simp add: addReward_def)

lemma addFees_fields [simp]:
  "sqrtPrice (addFeesToPositions pool f l t d) = sqrtPrice pool"
  "feeRate (addFeesToPositions pool f l t d) = feeRate pool"
  "map fst (positions (addFeesToPositions pool f l t d)) = map fst (positions pool)"
  "map (sqrtRange \<circ> snd) (positions (addFeesToPositions pool f l t d)) = map (sqrtRange \<circ> snd) (positions pool)"
  "map (liquidity \<circ> snd) (positions (addFeesToPositions pool f l t d)) = map (liquidity \<circ> snd) (positions pool)"
  by (auto simp: addFeesToPositions_def)

lemma count_filter_map:
  "length (filter (\<lambda>q. P (g q)) (map snd ps)) = length (filter P (map (g \<circ> snd) ps))"
  by (induction ps) auto

lemma upperAbove_alt:
  "upperAbove pool = length (filter (\<lambda>r. sqrtPrice pool < snd r) (map (sqrtRange \<circ> snd) (positions pool)))"
  unfolding upperAbove_def by (rule count_filter_map)

lemma lowerBelow_alt:
  "lowerBelow pool = length (filter (\<lambda>r. fst r < sqrtPrice pool) (map (sqrtRange \<circ> snd) (positions pool)))"
  unfolding lowerBelow_def by (rule count_filter_map)

lemma filter_count_less:
  assumes "r \<in> set rs" "P r" "\<not> Q r" "\<And>z. Q z \<Longrightarrow> P z"
  shows "length (filter Q rs) < length (filter P rs)"
proof -
  have "filter Q rs = filter Q (filter P rs)"
    using assms(4) by (auto intro: filter_cong)
  moreover have "r \<in> set (filter P rs)" using assms by simp
  ultimately show ?thesis
    using length_filter_less [of r "filter P rs" Q] assms(3) by simp
qed

lemma upperAbove_step:
  assumes r: "getCurrentRange pool UP = Inr r"
    and ranges: "map (sqrtRange \<circ> snd) (positions pool') = map (sqrtRange \<circ> snd) (positions pool)"
    and p': "sqrtPrice pool' = snd r"
  shows "sqrtPrice pool < snd r" "upperAbove pool' < upperAbove pool"
proof -
  let ?ps = "getPositionsInRange pool UP"
  from r have ne: "?ps \<noteq> []" and sr: "snd r = Min ((snd \<circ> sqrtRange) ` set ?ps)"
    by (auto simp: getCurrentRange_eq split: if_splits)
  have "snd r \<in> (snd \<circ> sqrtRange) ` set ?ps"
    unfolding sr using ne by (intro Min_in) auto
  then obtain q where q: "q \<in> set ?ps" "snd (sqrtRange q) = snd r" by auto
  from q(1) have qin: "q \<in> snd ` set (positions pool)" and qr: "sqrtPrice pool < snd (sqrtRange q)"
    by (auto simp: getPositionsInRange_def inRange_def)
  show lt: "sqrtPrice pool < snd r" using qr q(2) by simp
  have "sqrtRange q \<in> set (map (sqrtRange \<circ> snd) (positions pool))"
    using qin by auto
  then show "upperAbove pool' < upperAbove pool"
    unfolding upperAbove_alt ranges p'
    by (rule filter_count_less) (use lt q(2) in auto)
qed

lemma lowerBelow_step:
  assumes r: "getCurrentRange pool DOWN = Inr r"
    and ranges: "map (sqrtRange \<circ> snd) (positions pool') = map (sqrtRange \<circ> snd) (positions pool)"
    and p': "sqrtPrice pool' = fst r"
  shows "fst r < sqrtPrice pool" "lowerBelow pool' < lowerBelow pool"
proof -
  let ?ps = "getPositionsInRange pool DOWN"
  from r have ne: "?ps \<noteq> []" and sr: "fst r = Max ((fst \<circ> sqrtRange) ` set ?ps)"
    by (auto simp: getCurrentRange_eq split: if_splits)
  have "fst r \<in> (fst \<circ> sqrtRange) ` set ?ps"
    unfolding sr using ne by (intro Max_in) auto
  then obtain q where q: "q \<in> set ?ps" "fst (sqrtRange q) = fst r" by auto
  from q(1) have qin: "q \<in> snd ` set (positions pool)" and qr: "fst (sqrtRange q) < sqrtPrice pool"
    by (auto simp: getPositionsInRange_def inRange_def)
  show lt: "fst r < sqrtPrice pool" using qr q(2) by simp
  have "sqrtRange q \<in> set (map (sqrtRange \<circ> snd) (positions pool))"
    using qin by auto
  then show "lowerBelow pool' < lowerBelow pool"
    unfolding lowerBelow_alt ranges p'
    by (rule filter_count_less) (use lt q(2) in auto)
qed

text \<open>What a completed pass of \<^verbatim>\<open>sellY\<close> has done; when it leaves an amount to
  sell, it ended at the upper bound of the current range.\<close>

lemma sellY_segment_Inr:
  assumes "sellY_segment fees pool dX dY = Inr (pool', dX', dY')"
  obtains r where "getCurrentRange pool UP = Inr r"
    and "getLiquidityInCurrentRange pool UP \<noteq> 0"
    and "positions pool' = positions (addFeesToPositions pool
            ((fees * (min (dY / getLiquidityInCurrentRange pool UP) (snd r - sqrtPrice pool)
                  * getLiquidityInCurrentRange pool UP)) / dY)
            (getLiquidityInCurrentRange pool UP) TokenY UP)"
    and "sqrtPrice pool' = sqrtPrice pool + min (dY / getLiquidityInCurrentRange pool UP) (snd r - sqrtPrice pool)"
    and "feeRate pool' = feeRate pool"
    and "dY' = dY - min (dY / getLiquidityInCurrentRange pool UP) (snd r - sqrtPrice pool) * getLiquidityInCurrentRange pool UP"
  using assms unfolding sellY_segment_def
  by (auto simp: Let_def split: sum.splits if_splits)

lemma sellY_segment_continue:
  assumes seg: "sellY_segment fees pool dX dY = Inr (pool', dX', dY')"
    and "0 < dY" "0 < dY'"
  shows "sqrtPrice pool < sqrtPrice pool'" "upperAbove pool' < upperAbove pool"
proof -
  from seg obtain r where r: "getCurrentRange pool UP = Inr r"
    and l: "getLiquidityInCurrentRange pool UP \<noteq> 0"
    and ps: "positions pool' = positions (addFeesToPositions pool
            ((fees * (min (dY / getLiquidityInCurrentRange pool UP) (snd r - sqrtPrice pool)
                  * getLiquidityInCurrentRange pool UP)) / dY)
            (getLiquidityInCurrentRange pool UP) TokenY UP)"
    and sp: "sqrtPrice pool' = sqrtPrice pool + min (dY / getLiquidityInCurrentRange pool UP) (snd r - sqrtPrice pool)"
    and dY': "dY' = dY - min (dY / getLiquidityInCurrentRange pool UP) (snd r - sqrtPrice pool) * getLiquidityInCurrentRange pool UP"
    by (rule sellY_segment_Inr)
  let ?l = "getLiquidityInCurrentRange pool UP"
  have "min (dY / ?l) (snd r - sqrtPrice pool) \<noteq> dY / ?l"
    using dY' l \<open>0 < dY'\<close> by auto
  then have m: "min (dY / ?l) (snd r - sqrtPrice pool) = snd r - sqrtPrice pool"
    by (simp add: min_def split: if_splits)
  have p': "sqrtPrice pool' = snd r" using sp m by simp
  have ranges: "map (sqrtRange \<circ> snd) (positions pool') = map (sqrtRange \<circ> snd) (positions pool)"
    unfolding ps by simp
  from upperAbove_step [OF r ranges p'] p'
  show "sqrtPrice pool < sqrtPrice pool'" "upperAbove pool' < upperAbove pool" by simp_all
qed

function sellY_loop :: "real \<Rightarrow> Pool \<Rightarrow> real \<Rightarrow> real \<Rightarrow> (error + real) \<times> Pool" where
  "sellY_loop fees pool dX dY =
     (if dY > 0 then
        (case sellY_segment fees pool dX dY of
           Inl e \<Rightarrow> (Inl e, pool)
         | Inr (pool', dX', dY') \<Rightarrow> sellY_loop fees pool' dX' dY')
      else (Inr (- dX), pool))"
  by pat_completeness auto
termination
proof (relation "measure (\<lambda>(fees, pool, dX, dY). if dY > 0 then Suc (upperAbove pool) else 0)")
  show "wf (measure (\<lambda>(fees, pool, dX, dY). if dY > 0 then Suc (upperAbove pool) else 0))" by simp
next
  fix fees pool dX dY x2 x y xa ya
  assume "0 < dY" "sellY_segment fees pool dX dY = Inr x2" "(x, y) = x2" "(xa, ya) = y"
  then have seg: "sellY_segment fees pool dX dY = Inr (x, xa, ya)" by simp
  show "((fees, x, xa, ya), fees, pool, dX, dY)
       \<in> measure (\<lambda>(fees, pool, dX, dY). if dY > 0 then Suc (upperAbove pool) else 0)"
    using sellY_segment_continue(2) [OF seg \<open>0 < dY\<close>] \<open>0 < dY\<close> by simp
qed

declare sellY_loop.simps [simp del]

definition sellY :: "Pool \<Rightarrow> real \<Rightarrow> (error + real) \<times> Pool" where
  "sellY pool yWithFees =
     (if yWithFees \<le> 0 then (Inl CantSellNegative, pool)
      else (let fees = yWithFees * feeRate pool
            in sellY_loop fees pool 0 (yWithFees - fees)))"

lemma inv_of_dsqrt:
  fixes p d :: real
  assumes "p \<noteq> 0" "1 + d * p \<noteq> 0"
  shows "- (- d * (p ^ 2 / (1 + d * p))) / (p ^ 2 + p * (- d * (p ^ 2 / (1 + d * p)))) = d"
proof -
  define k where "k = 1 + d * p"
  have k: "k \<noteq> 0" and dp: "d * p = k - 1" using assms by (simp_all add: k_def)
  have "p ^ 2 + p * (- d * (p ^ 2 / k)) = p ^ 2 - (d * p) * (p ^ 2 / k)"
    by (simp add: algebra_simps)
  also have "\<dots> = p ^ 2 - (k - 1) * (p ^ 2 / k)" by (simp only: dp)
  also have "\<dots> = p ^ 2 / k" using k by (simp add: field_simps)
  finally have den: "p ^ 2 + p * (- d * (p ^ 2 / k)) = p ^ 2 / k" .
  have nz: "p ^ 2 / k \<noteq> 0" using assms(1) k by simp
  have "- (- d * (p ^ 2 / k)) / (p ^ 2 + p * (- d * (p ^ 2 / k))) = - (- d * (p ^ 2 / k)) / (p ^ 2 / k)"
    by (simp only: den)
  also have "\<dots> = d" using nz by simp
  finally show ?thesis unfolding k_def .
qed

lemma dsqrt_of_inv:
  fixes p d :: real
  assumes "p \<noteq> 0" "p + d \<noteq> 0"
  shows "- (- d / (p ^ 2 + p * d)) * (p ^ 2 / (1 + (- d / (p ^ 2 + p * d)) * p)) = d"
proof -
  define q where "q = p + d"
  have q: "q \<noteq> 0" and d: "d = q - p" using assms by (simp_all add: q_def)
  have den: "p ^ 2 + p * d = p * q" by (simp add: q_def power2_eq_square algebra_simps)
  have "1 + (- d / (p * q)) * p = 1 - d / q" using assms(1) by simp
  also have "\<dots> = p / q" using q by (simp add: d field_simps)
  finally have one: "1 + (- d / (p * q)) * p = p / q" .
  have e: "p ^ 2 / (p / q) = p * q" using assms(1) q by (simp add: power2_eq_square)
  have z: "p * q \<noteq> 0" using assms(1) q by simp
  have "- (- d / (p * q)) * (p * q) = d" using z by simp
  then show ?thesis unfolding den one e .
qed

lemma getDInv_getDSqrt:
  assumes "sqrtPrice pool \<noteq> 0" "1 + d * sqrtPrice pool \<noteq> 0"
  shows "getDInvSqrtPrice pool (getDSqrtPrice pool d) = d"
  unfolding getDInvSqrtPrice_def getDSqrtPrice_def by (rule inv_of_dsqrt [OF assms])

lemma getDSqrt_getDInv:
  assumes "sqrtPrice pool \<noteq> 0" "sqrtPrice pool + d \<noteq> 0"
  shows "getDSqrtPrice pool (getDInvSqrtPrice pool d) = d"
  unfolding getDInvSqrtPrice_def getDSqrtPrice_def by (rule dsqrt_of_inv [OF assms])

definition buyY_segment :: "Pool \<Rightarrow> real \<Rightarrow> real \<Rightarrow> error + (Pool \<times> real \<times> real)" where
  "buyY_segment pool dX dY =
     (case getCurrentRange pool DOWN of
        Inl e \<Rightarrow> Inl e
      | Inr currentRange \<Rightarrow>
          (let liq = getLiquidityInCurrentRange pool DOWN in
           if liq = 0 then Inl NotEnoughLiquidity
           else
             (let dSqrtPrice = max (dY / liq) (fst currentRange - sqrtPrice pool) in
              if sqrtPrice pool ^ 2 + sqrtPrice pool * dSqrtPrice = 0 \<or> 1 - feeRate pool = 0
              then Inl NonFinite
              else
                (let dYPartial = dSqrtPrice * liq;
                     dXPartial = liq * getDInvSqrtPrice pool dSqrtPrice;
                     partialFees = dXPartial / (1 - feeRate pool) - dXPartial;
                     pool' = addFeesToPositions pool partialFees liq TokenX DOWN
                 in Inr (pool' \<lparr> sqrtPrice := sqrtPrice pool' + dSqrtPrice \<rparr>,
                         dX + (dXPartial + partialFees), dY - dYPartial)))))"

lemma buyY_segment_Inr:
  assumes "buyY_segment pool dX dY = Inr (pool', dX', dY')"
  obtains r l ds where "getCurrentRange pool DOWN = Inr r"
    and "l = getLiquidityInCurrentRange pool DOWN" and "l \<noteq> 0"
    and "ds = max (dY / l) (fst r - sqrtPrice pool)"
    and "sqrtPrice pool ^ 2 + sqrtPrice pool * ds \<noteq> 0" and "feeRate pool \<noteq> 1"
    and "positions pool' = positions (addFeesToPositions pool
            (l * getDInvSqrtPrice pool ds / (1 - feeRate pool) - l * getDInvSqrtPrice pool ds) l TokenX DOWN)"
    and "sqrtPrice pool' = sqrtPrice pool + ds"
    and "feeRate pool' = feeRate pool"
    and "dY' = dY - ds * l"
  using assms unfolding buyY_segment_def
  by (auto simp: Let_def split: sum.splits if_splits)

lemma buyY_segment_continue:
  assumes seg: "buyY_segment pool dX dY = Inr (pool', dX', dY')"
    and "dY < 0" "dY' < 0"
  shows "sqrtPrice pool' < sqrtPrice pool" "lowerBelow pool' < lowerBelow pool"
proof -
  from seg obtain r l ds where r: "getCurrentRange pool DOWN = Inr r"
    and l: "l \<noteq> 0"
    and ds: "ds = max (dY / l) (fst r - sqrtPrice pool)"
    and ps: "positions pool' = positions (addFeesToPositions pool
            (l * getDInvSqrtPrice pool ds / (1 - feeRate pool) - l * getDInvSqrtPrice pool ds) l TokenX DOWN)"
    and sp: "sqrtPrice pool' = sqrtPrice pool + ds"
    and dY': "dY' = dY - ds * l"
    by (rule buyY_segment_Inr)
  have "ds \<noteq> dY / l" using dY' l \<open>dY' < 0\<close> by auto
  then have m: "ds = fst r - sqrtPrice pool"
    using ds by (simp add: max_def split: if_splits)
  have p': "sqrtPrice pool' = fst r" using sp m by simp
  have ranges: "map (sqrtRange \<circ> snd) (positions pool') = map (sqrtRange \<circ> snd) (positions pool)"
    unfolding ps by simp
  from lowerBelow_step [OF r ranges p'] p'
  show "sqrtPrice pool' < sqrtPrice pool" "lowerBelow pool' < lowerBelow pool" by simp_all
qed

function buyY_loop :: "Pool \<Rightarrow> real \<Rightarrow> real \<Rightarrow> (error + real) \<times> Pool" where
  "buyY_loop pool dX dY =
     (if dY < 0 then
        (case buyY_segment pool dX dY of
           Inl e \<Rightarrow> (Inl e, pool)
         | Inr (pool', dX', dY') \<Rightarrow> buyY_loop pool' dX' dY')
      else (Inr dX, pool))"
  by pat_completeness auto
termination
proof (relation "measure (\<lambda>(pool, dX, dY). if dY < 0 then Suc (lowerBelow pool) else 0)")
  show "wf (measure (\<lambda>(pool, dX, dY). if dY < 0 then Suc (lowerBelow pool) else 0))" by simp
next
  fix pool dX dY x2 x y xa ya
  assume "dY < 0" "buyY_segment pool dX dY = Inr x2" "(x, y) = x2" "(xa, ya) = y"
  then have seg: "buyY_segment pool dX dY = Inr (x, xa, ya)" by simp
  show "((x, xa, ya), pool, dX, dY)
       \<in> measure (\<lambda>(pool, dX, dY). if dY < 0 then Suc (lowerBelow pool) else 0)"
    using buyY_segment_continue(2) [OF seg \<open>dY < 0\<close>] \<open>dY < 0\<close> by simp
qed

declare buyY_loop.simps [simp del]

definition buyY :: "Pool \<Rightarrow> real \<Rightarrow> (error + real) \<times> Pool" where
  "buyY pool yDesired =
     (if yDesired \<le> 0 then (Inl CantBuyNegative, pool)
      else buyY_loop pool 0 (- yDesired))"

text \<open>
  Where \<open>1 + dInvSqrtPrice * sqrtPrice = 0\<close>, \<^verbatim>\<open>getDSqrtPrice\<close> divides by zero:
  \<open>sqrtPrice\<^sup>2 / 0\<close> is \<^verbatim>\<open>Infinity\<close> (\<open>sqrtPrice\<close> is not zero there), and
  \<^verbatim>\<open>getDSqrtPrice(dX / liquidity)\<close> is \<^verbatim>\<open>-Infinity\<close> when \<open>dX / liquidity > 0\<close>, which
  \<^verbatim>\<open>Math.max\<close> drops for the bound of the range, and \<^verbatim>\<open>Infinity\<close> when
  \<open>dX / liquidity < 0\<close>, which \<^verbatim>\<open>Math.max\<close> keeps: \<open>NonFinite\<close>.
\<close>

definition sellX_segment :: "real \<Rightarrow> Pool \<Rightarrow> real \<Rightarrow> real \<Rightarrow> error + (Pool \<times> real \<times> real)" where
  "sellX_segment fees pool dX dY =
     (case getCurrentRange pool DOWN of
        Inl e \<Rightarrow> Inl e
      | Inr currentRange \<Rightarrow>
          (let liq = getLiquidityInCurrentRange pool DOWN in
           if liq = 0 then Inl NotEnoughLiquidity
           else if 1 + (dX / liq) * sqrtPrice pool = 0 \<and> dX / liq < 0 then Inl NonFinite
           else
             (let dSqrtPrice =
                    (if 1 + (dX / liq) * sqrtPrice pool = 0
                     then fst currentRange - sqrtPrice pool
                     else max (getDSqrtPrice pool (dX / liq))
                              (fst currentRange - sqrtPrice pool)) in
              if sqrtPrice pool ^ 2 + sqrtPrice pool * dSqrtPrice = 0 then Inl NonFinite
              else
                (let dYPartial = dSqrtPrice * liq;
                     dXPartial = liq * getDInvSqrtPrice pool dSqrtPrice;
                     partialFees = (fees * dXPartial) / dX;
                     pool' = addFeesToPositions pool partialFees liq TokenX DOWN
                 in Inr (pool' \<lparr> sqrtPrice := sqrtPrice pool' + dSqrtPrice \<rparr>,
                         dX - dXPartial, dY + dYPartial)))))"

lemma sellX_segment_Inr:
  assumes "sellX_segment fees pool dX dY = Inr (pool', dX', dY')"
  obtains r l ds where "getCurrentRange pool DOWN = Inr r"
    and "l = getLiquidityInCurrentRange pool DOWN" and "l \<noteq> 0"
    and "ds = (if 1 + (dX / l) * sqrtPrice pool = 0 then fst r - sqrtPrice pool
               else max (getDSqrtPrice pool (dX / l)) (fst r - sqrtPrice pool))"
    and "sqrtPrice pool ^ 2 + sqrtPrice pool * ds \<noteq> 0"
    and "positions pool' = positions (addFeesToPositions pool
            ((fees * (l * getDInvSqrtPrice pool ds)) / dX) l TokenX DOWN)"
    and "sqrtPrice pool' = sqrtPrice pool + ds"
    and "feeRate pool' = feeRate pool"
    and "dX' = dX - l * getDInvSqrtPrice pool ds"
proof (cases "sellX_segment fees pool dX dY")
  case (Inl e)
  with assms show ?thesis by simp
next
  case (Inr s)
  from assms obtain r where r: "getCurrentRange pool DOWN = Inr r"
    by (auto simp: sellX_segment_def split: sum.splits)
  let ?l = "getLiquidityInCurrentRange pool DOWN"
  let ?ds = "if 1 + (dX / ?l) * sqrtPrice pool = 0 then fst r - sqrtPrice pool
             else max (getDSqrtPrice pool (dX / ?l)) (fst r - sqrtPrice pool)"
  from assms r have l: "?l \<noteq> 0"
    by (auto simp: sellX_segment_def Let_def split: if_splits)
  from assms r l have nz: "sqrtPrice pool ^ 2 + sqrtPrice pool * ?ds \<noteq> 0"
    by (auto simp: sellX_segment_def Let_def split: if_splits)
  from assms r l nz
  have res: "(pool', dX', dY') =
      ((addFeesToPositions pool ((fees * (?l * getDInvSqrtPrice pool ?ds)) / dX) ?l TokenX DOWN)
          \<lparr> sqrtPrice := sqrtPrice pool + ?ds \<rparr>,
       dX - ?l * getDInvSqrtPrice pool ?ds, dY + ?ds * ?l)"
    by (simp add: sellX_segment_def Let_def split: if_splits)
  show ?thesis
    by (rule that [OF r refl l refl nz]) (use res in simp_all)
qed

lemma sellX_segment_eq:
  assumes r: "getCurrentRange pool DOWN = Inr r"
    and l: "getLiquidityInCurrentRange pool DOWN = l" "l \<noteq> 0"
    and ng: "\<not> (1 + dX / l * sqrtPrice pool = 0 \<and> dX / l < 0)"
    and step: "(if 1 + dX / l * sqrtPrice pool = 0 then fst r - sqrtPrice pool
                else max (getDSqrtPrice pool (dX / l)) (fst r - sqrtPrice pool)) = ds"
    and nz: "sqrtPrice pool ^ 2 + sqrtPrice pool * ds \<noteq> 0"
  shows "sellX_segment fees pool dX dY =
     Inr ((addFeesToPositions pool ((fees * (l * getDInvSqrtPrice pool ds)) / dX) l TokenX DOWN)
             \<lparr> sqrtPrice := sqrtPrice pool + ds \<rparr>,
          dX - l * getDInvSqrtPrice pool ds, dY + ds * l)"
proof -
  have "sellX_segment fees pool dX dY =
     (if l = 0 then Inl NotEnoughLiquidity
      else if 1 + dX / l * sqrtPrice pool = 0 \<and> dX / l < 0 then Inl NonFinite
      else if sqrtPrice pool ^ 2 + sqrtPrice pool * ds = 0 then Inl NonFinite
      else Inr ((addFeesToPositions pool ((fees * (l * getDInvSqrtPrice pool ds)) / dX) l
                   TokenX DOWN)
             \<lparr> sqrtPrice := sqrtPrice (addFeesToPositions pool
                   ((fees * (l * getDInvSqrtPrice pool ds)) / dX) l TokenX DOWN) + ds \<rparr>,
          dX - l * getDInvSqrtPrice pool ds, dY + ds * l))"
    unfolding sellX_segment_def Let_def r l(1) sum.case step ..
  then show ?thesis using l(2) ng nz by simp
qed

lemma sellX_segment_continue:
  assumes seg: "sellX_segment fees pool dX dY = Inr (pool', dX', dY')"
    and "0 < dX" "0 < dX'"
  shows "sqrtPrice pool' < sqrtPrice pool" "lowerBelow pool' < lowerBelow pool"
proof -
  from seg obtain r l ds where r: "getCurrentRange pool DOWN = Inr r"
    and l: "l \<noteq> 0"
    and ds: "ds = (if 1 + (dX / l) * sqrtPrice pool = 0 then fst r - sqrtPrice pool
               else max (getDSqrtPrice pool (dX / l)) (fst r - sqrtPrice pool))"
    and nz: "sqrtPrice pool ^ 2 + sqrtPrice pool * ds \<noteq> 0"
    and ps: "positions pool' = positions (addFeesToPositions pool
            ((fees * (l * getDInvSqrtPrice pool ds)) / dX) l TokenX DOWN)"
    and sp: "sqrtPrice pool' = sqrtPrice pool + ds"
    and dX': "dX' = dX - l * getDInvSqrtPrice pool ds"
    by (rule sellX_segment_Inr)
  have p0: "sqrtPrice pool \<noteq> 0" using nz by auto
  have m: "ds = fst r - sqrtPrice pool"
  proof (cases "1 + (dX / l) * sqrtPrice pool = 0")
    case True
    then show ?thesis using ds by simp
  next
    case d1: False
    have "ds \<noteq> getDSqrtPrice pool (dX / l)"
    proof
      assume "ds = getDSqrtPrice pool (dX / l)"
      then have "getDInvSqrtPrice pool ds = dX / l"
        using getDInv_getDSqrt [OF p0 d1] by simp
      then show False using dX' l \<open>0 < dX'\<close> by simp
    qed
    then show ?thesis using ds d1 by (simp add: max_def split: if_splits)
  qed
  have p': "sqrtPrice pool' = fst r" using sp m by simp
  have ranges: "map (sqrtRange \<circ> snd) (positions pool') = map (sqrtRange \<circ> snd) (positions pool)"
    unfolding ps by simp
  from lowerBelow_step [OF r ranges p'] p'
  show "sqrtPrice pool' < sqrtPrice pool" "lowerBelow pool' < lowerBelow pool" by simp_all
qed

function sellX_loop :: "real \<Rightarrow> Pool \<Rightarrow> real \<Rightarrow> real \<Rightarrow> (error + real) \<times> Pool" where
  "sellX_loop fees pool dX dY =
     (if dX > 0 then
        (case sellX_segment fees pool dX dY of
           Inl e \<Rightarrow> (Inl e, pool)
         | Inr (pool', dX', dY') \<Rightarrow> sellX_loop fees pool' dX' dY')
      else (Inr (- dY), pool))"
  by pat_completeness auto
termination
proof (relation "measure (\<lambda>(fees, pool, dX, dY). if dX > 0 then Suc (lowerBelow pool) else 0)")
  show "wf (measure (\<lambda>(fees, pool, dX, dY). if dX > 0 then Suc (lowerBelow pool) else 0))" by simp
next
  fix fees pool dX dY x2 x y xa ya
  assume "0 < dX" "sellX_segment fees pool dX dY = Inr x2" "(x, y) = x2" "(xa, ya) = y"
  then have seg: "sellX_segment fees pool dX dY = Inr (x, xa, ya)" by simp
  show "((fees, x, xa, ya), fees, pool, dX, dY)
       \<in> measure (\<lambda>(fees, pool, dX, dY). if dX > 0 then Suc (lowerBelow pool) else 0)"
    using sellX_segment_continue(2) [OF seg \<open>0 < dX\<close>] \<open>0 < dX\<close> by simp
qed

declare sellX_loop.simps [simp del]

definition sellX :: "Pool \<Rightarrow> real \<Rightarrow> (error + real) \<times> Pool" where
  "sellX pool xWithFees =
     (if xWithFees \<le> 0 then (Inl CantSellNegative, pool)
      else (let fees = xWithFees * feeRate pool
            in sellX_loop fees pool (xWithFees - fees) 0))"

text \<open>
  Where \<open>1 + dInvSqrtPrice * sqrtPrice = 0\<close> (the amount asked is all that the liquidity
  can give, at an infinite price), \<^verbatim>\<open>getDSqrtPrice(dX / liquidity)\<close> is \<^verbatim>\<open>Infinity\<close>
  when \<open>dX / liquidity < 0\<close>, which \<^verbatim>\<open>Math.min\<close> drops for the bound of the range, and
  \<^verbatim>\<open>-Infinity\<close> when \<open>dX / liquidity > 0\<close>, which \<^verbatim>\<open>Math.min\<close> keeps: \<open>NonFinite\<close>.
\<close>

definition buyX_segment :: "Pool \<Rightarrow> real \<Rightarrow> real \<Rightarrow> error + (Pool \<times> real \<times> real)" where
  "buyX_segment pool dX dY =
     (case getCurrentRange pool UP of
        Inl e \<Rightarrow> Inl e
      | Inr currentRange \<Rightarrow>
          (let liq = getLiquidityInCurrentRange pool UP in
           if liq = 0 then Inl NotEnoughLiquidity
           else if 1 + (dX / liq) * sqrtPrice pool = 0 \<and> 0 < dX / liq then Inl NonFinite
           else
             (let dSqrtPrice =
                    (if 1 + (dX / liq) * sqrtPrice pool = 0
                     then snd currentRange - sqrtPrice pool
                     else min (getDSqrtPrice pool (dX / liq))
                              (snd currentRange - sqrtPrice pool)) in
              if sqrtPrice pool ^ 2 + sqrtPrice pool * dSqrtPrice = 0 \<or> 1 - feeRate pool = 0
              then Inl NonFinite
              else
                (let dYPartial = dSqrtPrice * liq;
                     dXPartial = liq * getDInvSqrtPrice pool dSqrtPrice;
                     partialFees = dYPartial / (1 - feeRate pool) - dYPartial;
                     pool' = addFeesToPositions pool partialFees liq TokenY UP
                 in Inr (pool' \<lparr> sqrtPrice := sqrtPrice pool' + dSqrtPrice \<rparr>,
                         dX - dXPartial, dY + (dYPartial + partialFees))))))"

lemma buyX_segment_Inr:
  assumes "buyX_segment pool dX dY = Inr (pool', dX', dY')"
  obtains r l ds where "getCurrentRange pool UP = Inr r"
    and "l = getLiquidityInCurrentRange pool UP" and "l \<noteq> 0"
    and "ds = (if 1 + (dX / l) * sqrtPrice pool = 0 then snd r - sqrtPrice pool
               else min (getDSqrtPrice pool (dX / l)) (snd r - sqrtPrice pool))"
    and "sqrtPrice pool ^ 2 + sqrtPrice pool * ds \<noteq> 0" and "feeRate pool \<noteq> 1"
    and "positions pool' = positions (addFeesToPositions pool
            (ds * l / (1 - feeRate pool) - ds * l) l TokenY UP)"
    and "sqrtPrice pool' = sqrtPrice pool + ds"
    and "feeRate pool' = feeRate pool"
    and "dX' = dX - l * getDInvSqrtPrice pool ds"
proof (cases "buyX_segment pool dX dY")
  case (Inl e)
  with assms show ?thesis by simp
next
  case (Inr s)
  from assms obtain r where r: "getCurrentRange pool UP = Inr r"
    by (auto simp: buyX_segment_def split: sum.splits)
  let ?l = "getLiquidityInCurrentRange pool UP"
  let ?ds = "if 1 + (dX / ?l) * sqrtPrice pool = 0 then snd r - sqrtPrice pool
             else min (getDSqrtPrice pool (dX / ?l)) (snd r - sqrtPrice pool)"
  from assms r have l: "?l \<noteq> 0"
    by (auto simp: buyX_segment_def Let_def split: if_splits)
  from assms r l have nz: "sqrtPrice pool ^ 2 + sqrtPrice pool * ?ds \<noteq> 0"
    and fr: "feeRate pool \<noteq> 1"
    by (auto simp: buyX_segment_def Let_def split: if_splits)
  from assms r l nz fr
  have res: "(pool', dX', dY') =
      ((addFeesToPositions pool (?ds * ?l / (1 - feeRate pool) - ?ds * ?l) ?l TokenY UP)
          \<lparr> sqrtPrice := sqrtPrice pool + ?ds \<rparr>,
       dX - ?l * getDInvSqrtPrice pool ?ds,
       dY + (?ds * ?l + (?ds * ?l / (1 - feeRate pool) - ?ds * ?l)))"
    by (simp add: buyX_segment_def Let_def split: if_splits)
  show ?thesis
    by (rule that [OF r refl l refl nz fr]) (use res in simp_all)
qed

lemma buyX_segment_eq:
  assumes r: "getCurrentRange pool UP = Inr r"
    and l: "getLiquidityInCurrentRange pool UP = l" "l \<noteq> 0"
    and ng: "\<not> (1 + dX / l * sqrtPrice pool = 0 \<and> 0 < dX / l)"
    and step: "(if 1 + dX / l * sqrtPrice pool = 0 then snd r - sqrtPrice pool
                else min (getDSqrtPrice pool (dX / l)) (snd r - sqrtPrice pool)) = ds"
    and nz: "sqrtPrice pool ^ 2 + sqrtPrice pool * ds \<noteq> 0"
    and fr: "feeRate pool \<noteq> 1"
  shows "buyX_segment pool dX dY =
     Inr ((addFeesToPositions pool (ds * l / (1 - feeRate pool) - ds * l) l TokenY UP)
             \<lparr> sqrtPrice := sqrtPrice pool + ds \<rparr>,
          dX - l * getDInvSqrtPrice pool ds,
          dY + (ds * l + (ds * l / (1 - feeRate pool) - ds * l)))"
proof -
  have "buyX_segment pool dX dY =
     (if l = 0 then Inl NotEnoughLiquidity
      else if 1 + dX / l * sqrtPrice pool = 0 \<and> 0 < dX / l then Inl NonFinite
      else if sqrtPrice pool ^ 2 + sqrtPrice pool * ds = 0 \<or> 1 - feeRate pool = 0
      then Inl NonFinite
      else Inr ((addFeesToPositions pool (ds * l / (1 - feeRate pool) - ds * l) l TokenY UP)
             \<lparr> sqrtPrice := sqrtPrice (addFeesToPositions pool
                   (ds * l / (1 - feeRate pool) - ds * l) l TokenY UP) + ds \<rparr>,
          dX - l * getDInvSqrtPrice pool ds,
          dY + (ds * l + (ds * l / (1 - feeRate pool) - ds * l))))"
    unfolding buyX_segment_def Let_def r l(1) sum.case step ..
  then show ?thesis using l(2) ng nz fr by simp
qed

lemma buyX_segment_continue:
  assumes seg: "buyX_segment pool dX dY = Inr (pool', dX', dY')"
    and "dX < 0" "dX' < 0"
  shows "sqrtPrice pool < sqrtPrice pool'" "upperAbove pool' < upperAbove pool"
proof -
  from seg obtain r l ds where r: "getCurrentRange pool UP = Inr r"
    and l: "l \<noteq> 0"
    and ds: "ds = (if 1 + (dX / l) * sqrtPrice pool = 0 then snd r - sqrtPrice pool
               else min (getDSqrtPrice pool (dX / l)) (snd r - sqrtPrice pool))"
    and nz: "sqrtPrice pool ^ 2 + sqrtPrice pool * ds \<noteq> 0"
    and ps: "positions pool' = positions (addFeesToPositions pool
            (ds * l / (1 - feeRate pool) - ds * l) l TokenY UP)"
    and sp: "sqrtPrice pool' = sqrtPrice pool + ds"
    and dX': "dX' = dX - l * getDInvSqrtPrice pool ds"
    by (rule buyX_segment_Inr)
  have p0: "sqrtPrice pool \<noteq> 0" using nz by auto
  have m: "ds = snd r - sqrtPrice pool"
  proof (cases "1 + (dX / l) * sqrtPrice pool = 0")
    case True
    then show ?thesis using ds by simp
  next
    case d1: False
    have "ds \<noteq> getDSqrtPrice pool (dX / l)"
    proof
      assume "ds = getDSqrtPrice pool (dX / l)"
      then have "getDInvSqrtPrice pool ds = dX / l"
        using getDInv_getDSqrt [OF p0 d1] by simp
      then show False using dX' l \<open>dX' < 0\<close> by simp
    qed
    then show ?thesis using ds d1 by (simp add: min_def split: if_splits)
  qed
  have p': "sqrtPrice pool' = snd r" using sp m by simp
  have ranges: "map (sqrtRange \<circ> snd) (positions pool') = map (sqrtRange \<circ> snd) (positions pool)"
    unfolding ps by simp
  from upperAbove_step [OF r ranges p'] p'
  show "sqrtPrice pool < sqrtPrice pool'" "upperAbove pool' < upperAbove pool" by simp_all
qed

function buyX_loop :: "Pool \<Rightarrow> real \<Rightarrow> real \<Rightarrow> (error + real) \<times> Pool" where
  "buyX_loop pool dX dY =
     (if dX < 0 then
        (case buyX_segment pool dX dY of
           Inl e \<Rightarrow> (Inl e, pool)
         | Inr (pool', dX', dY') \<Rightarrow> buyX_loop pool' dX' dY')
      else (Inr dY, pool))"
  by pat_completeness auto
termination
proof (relation "measure (\<lambda>(pool, dX, dY). if dX < 0 then Suc (upperAbove pool) else 0)")
  show "wf (measure (\<lambda>(pool, dX, dY). if dX < 0 then Suc (upperAbove pool) else 0))" by simp
next
  fix pool dX dY x2 x y xa ya
  assume "dX < 0" "buyX_segment pool dX dY = Inr x2" "(x, y) = x2" "(xa, ya) = y"
  then have seg: "buyX_segment pool dX dY = Inr (x, xa, ya)" by simp
  show "((x, xa, ya), pool, dX, dY)
       \<in> measure (\<lambda>(pool, dX, dY). if dX < 0 then Suc (upperAbove pool) else 0)"
    using buyX_segment_continue(2) [OF seg \<open>dX < 0\<close>] \<open>dX < 0\<close> by simp
qed

declare buyX_loop.simps [simp del]

definition buyX :: "Pool \<Rightarrow> real \<Rightarrow> (error + real) \<times> Pool" where
  "buyX pool xDesired =
     (if xDesired \<le> 0 then (Inl CantBuyNegative, pool)
      else buyX_loop pool (- xDesired) 0)"

text \<open>movePrice: one pass of the loop body, with \<open>dSqrtPrice = sqrtTargetPrice - sqrtPrice\<close>
  as the code has it at the head of every pass.\<close>

definition movePrice_segment :: "real \<Rightarrow> Pool \<Rightarrow> real \<Rightarrow> real \<Rightarrow> error + (Pool \<times> real \<times> real)" where
  "movePrice_segment sqrtTargetPrice pool dX dY =
     (let dSqrtPrice = sqrtTargetPrice - sqrtPrice pool;
          dir = (if dSqrtPrice < 0 then DOWN else UP)
      in case getCurrentRange pool dir of
        Inl e \<Rightarrow> Inl e
      | Inr currentRange \<Rightarrow>
          (let liq = getLiquidityInCurrentRange pool dir in
           if liq = 0 then Inl NotEnoughLiquidity
           else
             (let nextSqrtPrice =
                    (if dSqrtPrice > 0
                     then min (snd currentRange) (sqrtPrice pool + dSqrtPrice)
                     else max (fst currentRange) (sqrtPrice pool + dSqrtPrice));
                  dSqrtPricePartial = nextSqrtPrice - sqrtPrice pool in
              if sqrtPrice pool ^ 2 + sqrtPrice pool * dSqrtPricePartial = 0
                 \<or> 1 - feeRate pool = 0
              then Inl NonFinite
              else
                (let dYPartial = liq * dSqrtPricePartial;
                     dXPartial = liq * getDInvSqrtPrice pool dSqrtPricePartial;
                     partialFees = (if dSqrtPrice > 0 then dYPartial else dXPartial)
                                     * (1 / (1 - feeRate pool) - 1);
                     pool' = addFeesToPositions pool partialFees liq
                               (if dSqrtPrice > 0 then TokenY else TokenX) dir
                 in Inr (pool' \<lparr> sqrtPrice := nextSqrtPrice \<rparr>,
                         dX + (dXPartial + (if dSqrtPrice > 0 then 0 else partialFees)),
                         dY + (dYPartial + (if dSqrtPrice < 0 then 0 else partialFees)))))))"

lemma movePrice_segment_Inr:
  assumes "movePrice_segment t pool dX dY = Inr (pool', dX', dY')"
  obtains r l f tok where
        "getCurrentRange pool (if t - sqrtPrice pool < 0 then DOWN else UP) = Inr r"
    and "l = getLiquidityInCurrentRange pool (if t - sqrtPrice pool < 0 then DOWN else UP)"
    and "l \<noteq> 0"
    and "positions pool' = positions (addFeesToPositions pool f l tok
            (if t - sqrtPrice pool < 0 then DOWN else UP))"
    and "sqrtPrice pool' = (if t - sqrtPrice pool > 0 then min (snd r) t else max (fst r) t)"
    and "feeRate pool' = feeRate pool"
  using assms unfolding movePrice_segment_def
  by (auto simp: Let_def split: sum.splits if_splits)

lemma movePrice_segment_continue:
  assumes seg: "movePrice_segment t pool dX dY = Inr (pool', dX', dY')"
    and "t \<noteq> sqrtPrice pool" "t \<noteq> sqrtPrice pool'"
  shows "sqrtPrice pool < t \<Longrightarrow> sqrtPrice pool < sqrtPrice pool' \<and> sqrtPrice pool' < t
            \<and> upperAbove pool' < upperAbove pool"
    and "t < sqrtPrice pool \<Longrightarrow> sqrtPrice pool' < sqrtPrice pool \<and> t < sqrtPrice pool'
            \<and> lowerBelow pool' < lowerBelow pool"
proof -
  from seg obtain r l f tok where
        r: "getCurrentRange pool (if t - sqrtPrice pool < 0 then DOWN else UP) = Inr r"
    and ps: "positions pool' = positions (addFeesToPositions pool f l tok
            (if t - sqrtPrice pool < 0 then DOWN else UP))"
    and sp: "sqrtPrice pool' = (if t - sqrtPrice pool > 0 then min (snd r) t else max (fst r) t)"
    by (rule movePrice_segment_Inr)
  have ranges: "map (sqrtRange \<circ> snd) (positions pool') = map (sqrtRange \<circ> snd) (positions pool)"
    unfolding ps by simp
  show "sqrtPrice pool < sqrtPrice pool' \<and> sqrtPrice pool' < t \<and> upperAbove pool' < upperAbove pool"
    if up: "sqrtPrice pool < t"
  proof -
    from up r have r': "getCurrentRange pool UP = Inr r" by simp
    from up sp assms(3) have p': "sqrtPrice pool' = snd r" and "snd r < t"
      by (auto simp: min_def split: if_splits)
    with upperAbove_step [OF r' ranges p'] show ?thesis by simp
  qed
  show "sqrtPrice pool' < sqrtPrice pool \<and> t < sqrtPrice pool' \<and> lowerBelow pool' < lowerBelow pool"
    if down: "t < sqrtPrice pool"
  proof -
    from down r have r': "getCurrentRange pool DOWN = Inr r" by simp
    from down sp assms(3) have p': "sqrtPrice pool' = fst r" and "t < fst r"
      by (auto simp: max_def split: if_splits)
    with lowerBelow_step [OF r' ranges p'] show ?thesis by simp
  qed
qed

definition movePrice_measure :: "real \<Rightarrow> Pool \<Rightarrow> nat" where
  "movePrice_measure t pool =
     (if t = sqrtPrice pool then 0
      else if sqrtPrice pool < t then Suc (upperAbove pool)
      else Suc (lowerBelow pool))"

lemma movePrice_measure_less:
  assumes seg: "movePrice_segment t pool dX dY = Inr (pool', dX', dY')"
    and ne: "t - sqrtPrice pool \<noteq> 0"
  shows "movePrice_measure t pool' < movePrice_measure t pool"
proof (cases "t = sqrtPrice pool'")
  case True
  then show ?thesis using ne by (simp add: movePrice_measure_def)
next
  case False
  from ne have ne': "t \<noteq> sqrtPrice pool" by simp
  show ?thesis
  proof (cases "sqrtPrice pool < t")
    case True
    from movePrice_segment_continue(1) [OF seg ne' False True]
    show ?thesis using True by (simp add: movePrice_measure_def)
  next
    case F: False
    with ne' have down: "t < sqrtPrice pool" by simp
    from movePrice_segment_continue(2) [OF seg ne' False down]
    show ?thesis using down by (simp add: movePrice_measure_def)
  qed
qed

function movePrice_loop :: "real \<Rightarrow> Pool \<Rightarrow> real \<Rightarrow> real \<Rightarrow> (error + Balance) \<times> Pool" where
  "movePrice_loop sqrtTargetPrice pool dX dY =
     (if sqrtTargetPrice - sqrtPrice pool \<noteq> 0 then
        (case movePrice_segment sqrtTargetPrice pool dX dY of
           Inl e \<Rightarrow> (Inl e, pool)
         | Inr (pool', dX', dY') \<Rightarrow> movePrice_loop sqrtTargetPrice pool' dX' dY')
      else (Inr \<lparr> amount_x = dX, amount_y = dY \<rparr>, pool))"
  by pat_completeness auto
termination
proof (relation "measure (\<lambda>(t, pool, dX, dY). movePrice_measure t pool)")
  show "wf (measure (\<lambda>(t, pool, dX, dY). movePrice_measure t pool))" by simp
next
  fix t pool dX dY x2 x y xa ya
  assume ne: "t - sqrtPrice pool \<noteq> 0"
    and "movePrice_segment t pool dX dY = Inr x2" "(x, y) = x2" "(xa, ya) = y"
  then have seg: "movePrice_segment t pool dX dY = Inr (x, xa, ya)" by simp
  show "((t, x, xa, ya), t, pool, dX, dY) \<in> measure (\<lambda>(t, pool, dX, dY). movePrice_measure t pool)"
    using movePrice_measure_less [OF seg ne] by simp
qed

declare movePrice_loop.simps [simp del]

text \<open>\<^verbatim>\<open>Math.sqrt\<close> of a negative target is \<^verbatim>\<open>NaN\<close>: \<open>NonFinite\<close>.\<close>

definition movePrice :: "Pool \<Rightarrow> real \<Rightarrow> (error + Balance) \<times> Pool" where
  "movePrice pool targetPrice =
     (if targetPrice < 0 then (Inl NonFinite, pool)
      else
        (let sqrtTargetPrice = sqrt targetPrice in
         if sqrtPrice pool = sqrtTargetPrice
         then (Inr \<lparr> amount_x = 0, amount_y = 0 \<rparr>, pool)
         else movePrice_loop sqrtTargetPrice pool 0 0))"

section \<open>Completed segments\<close>

text \<open>The state after \<open>n\<close> passes of a loop \<^verbatim>\<open>while (c) b\<close> that all completed, from the
  state \<open>s\<close>; \<open>None\<close> when the loop ends or throws before.\<close>

fun segments :: "('s \<Rightarrow> bool) \<Rightarrow> ('s \<Rightarrow> error + 's) \<Rightarrow> nat \<Rightarrow> 's \<Rightarrow> 's option" where
  "segments c b 0 s = Some s"
| "segments c b (Suc n) s =
     (if c s then (case b s of Inl e \<Rightarrow> None | Inr s' \<Rightarrow> segments c b n s') else None)"

text \<open>The pool and the running amounts of a call after \<open>n\<close> passes of its loop, each
  from the initial values the call gives them.\<close>

definition sellY_after :: "nat \<Rightarrow> Pool \<Rightarrow> real \<Rightarrow> (Pool \<times> real \<times> real) option" where
  "sellY_after n pool yWithFees =
     segments (\<lambda>(p, dX, dY). dY > 0)
       (\<lambda>(p, dX, dY). sellY_segment (yWithFees * feeRate pool) p dX dY) n
       (pool, 0, yWithFees - yWithFees * feeRate pool)"

definition buyY_after :: "nat \<Rightarrow> Pool \<Rightarrow> real \<Rightarrow> (Pool \<times> real \<times> real) option" where
  "buyY_after n pool yDesired =
     segments (\<lambda>(p, dX, dY). dY < 0) (\<lambda>(p, dX, dY). buyY_segment p dX dY) n
       (pool, 0, - yDesired)"

definition sellX_after :: "nat \<Rightarrow> Pool \<Rightarrow> real \<Rightarrow> (Pool \<times> real \<times> real) option" where
  "sellX_after n pool xWithFees =
     segments (\<lambda>(p, dX, dY). dX > 0)
       (\<lambda>(p, dX, dY). sellX_segment (xWithFees * feeRate pool) p dX dY) n
       (pool, xWithFees - xWithFees * feeRate pool, 0)"

definition buyX_after :: "nat \<Rightarrow> Pool \<Rightarrow> real \<Rightarrow> (Pool \<times> real \<times> real) option" where
  "buyX_after n pool xDesired =
     segments (\<lambda>(p, dX, dY). dX < 0) (\<lambda>(p, dX, dY). buyX_segment p dX dY) n
       (pool, - xDesired, 0)"

definition movePrice_after :: "nat \<Rightarrow> Pool \<Rightarrow> real \<Rightarrow> (Pool \<times> real \<times> real) option" where
  "movePrice_after n pool targetPrice =
     segments (\<lambda>(p, dX, dY). sqrt targetPrice - sqrtPrice p \<noteq> 0)
       (\<lambda>(p, dX, dY). movePrice_segment (sqrt targetPrice) p dX dY) n
       (pool, 0, 0)"

section \<open>Rewards of a pool\<close>

text \<open>A position's reward in one token, and the sum over the positions of a pool.\<close>

definition reward :: "Token \<Rightarrow> Position \<Rightarrow> real" where
  "reward token position =
     (if token = TokenX then amount_x (rewards position) else amount_y (rewards position))"

definition totalRewards :: "Token \<Rightarrow> Pool \<Rightarrow> real" where
  "totalRewards token pool = sum_list (map (reward token \<circ> snd) (positions pool))"

text \<open>Pools as the data model has them: liquidities and lower sqrt-bounds are not
  negative, the fee rate is in \<open>[0, 1)\<close>.\<close>

definition wellFormed :: "Pool \<Rightarrow> bool" where
  "wellFormed pool \<longleftrightarrow>
     0 \<le> feeRate pool \<and> feeRate pool < 1
     \<and> list_all (\<lambda>q. 0 \<le> liquidity q \<and> 0 \<le> fst (sqrtRange q)) (map snd (positions pool))"

text \<open>No position has lost rewards from the first pool to the second.\<close>

definition rewardsGrow :: "Pool \<Rightarrow> Pool \<Rightarrow> bool" where
  "rewardsGrow pool pool' \<longleftrightarrow>
     list_all2 (\<lambda>(i, q) (i', q'). i = i'
                  \<and> amount_x (rewards q) \<le> amount_x (rewards q')
                  \<and> amount_y (rewards q) \<le> amount_y (rewards q'))
       (positions pool) (positions pool')"

section \<open>Example pools\<close>

text \<open>Two adjacent ranges \<open>[1, 4]\<close> and \<open>[4, 9]\<close> of liquidity 1 each, at price 1, with a
  fee rate of one half.\<close>

definition twoRangePool :: Pool where
  "twoRangePool =
     snd (enterPosition
            (snd (enterPosition (newPool 1 (1 / 2)) ''a'' (1, 4) (ByLiquidity 1)))
            ''b'' (4, 9) (ByLiquidity 1))"

text \<open>One position of liquidity 1 over \<open>[1/4, 4]\<close>, at price 1, with a fee rate of one half.\<close>

definition wideRangePool :: Pool where
  "wideRangePool = snd (enterPosition (newPool 1 (1 / 2)) ''a'' (1 / 4, 4) (ByLiquidity 1))"

text \<open>One position of liquidity 1 over \<open>[1/1.1, 1.1]\<close>, at price 1, without fees:
  \<open>onePosition\<close> is the position that \<^verbatim>\<open>enterPosition\<close> makes.\<close>

definition onePosition :: Position where
  "onePosition =
     \<lparr> id_pos = ''a'', sqrtRange = toSqrtRange (10 / 11, 11 / 10), liquidity = 1,
       initialBalance = getTokenAmounts 1 (toSqrtRange (10 / 11, 11 / 10)) 1,
       rewards = \<lparr> amount_x = 0, amount_y = 0 \<rparr> \<rparr>"

definition onePositionPool :: Pool where
  "onePositionPool =
     snd (enterPosition (newPool 1 0) ''a'' (10 / 11, 11 / 10) (ByLiquidity 1))"

text \<open>Three positions given by their sqrt-ranges; the third does not cover the price.\<close>

definition rangesPool :: Pool where
  "rangesPool =
     \<lparr> positions =
         [(''a'', \<lparr> id_pos = ''a'', sqrtRange = (1 / 2, 2), liquidity = 1,
                   initialBalance = \<lparr> amount_x = 0, amount_y = 0 \<rparr>,
                   rewards = \<lparr> amount_x = 0, amount_y = 0 \<rparr> \<rparr>),
          (''b'', \<lparr> id_pos = ''b'', sqrtRange = (3 / 4, 3), liquidity = 1,
                   initialBalance = \<lparr> amount_x = 0, amount_y = 0 \<rparr>,
                   rewards = \<lparr> amount_x = 0, amount_y = 0 \<rparr> \<rparr>),
          (''c'', \<lparr> id_pos = ''c'', sqrtRange = (2, 50), liquidity = 1,
                   initialBalance = \<lparr> amount_x = 0, amount_y = 0 \<rparr>,
                   rewards = \<lparr> amount_x = 0, amount_y = 0 \<rparr> \<rparr>)],
       sqrtPrice = 1, feeRate = 0 \<rparr>"

section \<open>Properties\<close>

subsection \<open>Positions in range, liquidity and current range\<close>

lemma update_fresh: "k \<notin> fst ` set ps \<Longrightarrow> AList.update k v ps = ps @ [(k, v)]"
  by (induction ps) auto

lemma newPosition_ByLiquidity:
  "newPosition i p rng (ByLiquidity l) =
     Inr \<lparr> id_pos = i, sqrtRange = (sqrt (fst rng), sqrt (snd rng)), liquidity = l,
           initialBalance = getTokenAmounts l (sqrt (fst rng), sqrt (snd rng)) p,
           rewards = \<lparr> amount_x = 0, amount_y = 0 \<rparr> \<rparr>"
  by (simp add: newPosition_def Let_def)

lemma newPosition_fields:
  assumes "newPosition i p rng dep = Inr q"
  shows "id_pos q = i"
    and "sqrtRange q = (sqrt (fst rng), sqrt (snd rng))"
    and "rewards q = \<lparr> amount_x = 0, amount_y = 0 \<rparr>"
  using assms by (auto simp: newPosition_def Let_def split: number.splits)

lemma newPosition_id:
  "newPosition i p rng dep =
     (case newPosition j p rng dep of Inl e \<Rightarrow> Inl e | Inr q \<Rightarrow> Inr (q \<lparr> id_pos := i \<rparr>))"
  by (simp add: newPosition_def Let_def split: number.splits)

text \<open>What a deposit adds to the liquidity in the current range.\<close>

lemma added_liquidity_id:
  "(case newPosition i p rng dep of Inl e \<Rightarrow> 0
    | Inr q \<Rightarrow> if inRange d s q then liquidity q else 0) =
   (case newPosition j p rng dep of Inl e \<Rightarrow> 0
    | Inr q \<Rightarrow> if inRange d s q then liquidity q else (0::real))"
  by (subst newPosition_id [of i p rng dep j]) (simp add: inRange_def split: sum.splits)

lemma inRange_UP: "inRange UP p =
    (\<lambda>q. fst (sqrtRange q) \<le> p \<and> p < snd (sqrtRange q))"
  by (simp add: fun_eq_iff inRange_def)

lemma inRange_DOWN: "inRange DOWN p =
    (\<lambda>q. fst (sqrtRange q) < p \<and> p \<le> snd (sqrtRange q))"
  by (simp add: fun_eq_iff inRange_def)

lemma enterPosition_fresh:
  assumes "i \<notin> fst ` set (positions pool)"
  shows "positions (snd (enterPosition pool i rng dep)) =
           (case newPosition i (sqrtPrice pool) rng dep of
              Inl e \<Rightarrow> positions pool
            | Inr q \<Rightarrow> positions pool @ [(i, q)])"
    and "sqrtPrice (snd (enterPosition pool i rng dep)) = sqrtPrice pool"
    and "feeRate (snd (enterPosition pool i rng dep)) = feeRate pool"
  using assms
  by (auto simp: enterPosition_def update_fresh newPosition_fields(1) split: sum.splits)

lemma enterPosition_liquidity:
  assumes "i \<notin> fst ` set (positions pool)"
  shows "getLiquidityInCurrentRange (snd (enterPosition pool i rng dep)) d =
           getLiquidityInCurrentRange pool d
           + (case newPosition i (sqrtPrice pool) rng dep of Inl e \<Rightarrow> 0
              | Inr q \<Rightarrow> if inRange d (sqrtPrice pool) q then liquidity q else 0)"
  by (simp add: getLiquidityInCurrentRange_sum getPositionsInRange_def
        enterPosition_fresh [OF assms] split: sum.splits)

text \<open>
  C2. \<^verbatim>\<open>getPositionsInRange(UP)\<close> is the list of the pool's positions with
  \<open>lo \<le> sqrtPrice < hi\<close>, \<^verbatim>\<open>getPositionsInRange(DOWN)\<close> the list of those with
  \<open>lo < sqrtPrice \<le> hi\<close>, and \<^verbatim>\<open>getLiquidityInCurrentRange(d)\<close> is the sum of the
  liquidity over exactly these positions. Entering the same deposit twice (under two new
  ids) adds twice what entering it once adds: on a pool without positions the reported
  liquidity doubles.
\<close>

theorem positions_in_range_and_liquidity:
  "getPositionsInRange pool UP =
     filter (\<lambda>q. fst (sqrtRange q) \<le> sqrtPrice pool \<and> sqrtPrice pool < snd (sqrtRange q))
            (map snd (positions pool))
   \<and> getPositionsInRange pool DOWN =
     filter (\<lambda>q. fst (sqrtRange q) < sqrtPrice pool \<and> sqrtPrice pool \<le> snd (sqrtRange q))
            (map snd (positions pool))
   \<and> getLiquidityInCurrentRange pool d = sum_list (map liquidity (getPositionsInRange pool d))
   \<and> (i1 \<noteq> i2 \<and> i1 \<notin> fst ` set (positions pool) \<and> i2 \<notin> fst ` set (positions pool) \<longrightarrow>
        getLiquidityInCurrentRange
            (snd (enterPosition (snd (enterPosition pool i1 rng dep)) i2 rng dep)) d
          - getLiquidityInCurrentRange pool d
        = 2 * (getLiquidityInCurrentRange (snd (enterPosition pool i1 rng dep)) d
                 - getLiquidityInCurrentRange pool d))
   \<and> (i1 \<noteq> i2 \<and> positions pool = [] \<longrightarrow>
        getLiquidityInCurrentRange
            (snd (enterPosition (snd (enterPosition pool i1 rng dep)) i2 rng dep)) d
        = 2 * getLiquidityInCurrentRange (snd (enterPosition pool i1 rng dep)) d)"
proof -
  have up: "getPositionsInRange pool UP =
     filter (\<lambda>q. fst (sqrtRange q) \<le> sqrtPrice pool \<and> sqrtPrice pool < snd (sqrtRange q))
            (map snd (positions pool))"
    by (simp add: getPositionsInRange_def inRange_UP)
  have down: "getPositionsInRange pool DOWN =
     filter (\<lambda>q. fst (sqrtRange q) < sqrtPrice pool \<and> sqrtPrice pool \<le> snd (sqrtRange q))
            (map snd (positions pool))"
    by (simp add: getPositionsInRange_def inRange_DOWN)
  have twice: "getLiquidityInCurrentRange
            (snd (enterPosition (snd (enterPosition pool i1 rng dep)) i2 rng dep)) d
          - getLiquidityInCurrentRange pool d
        = 2 * (getLiquidityInCurrentRange (snd (enterPosition pool i1 rng dep)) d
                 - getLiquidityInCurrentRange pool d)"
    if ne: "i1 \<noteq> i2" and f1: "i1 \<notin> fst ` set (positions pool)"
      and f2: "i2 \<notin> fst ` set (positions pool)"
  proof -
    let ?pool1 = "snd (enterPosition pool i1 rng dep)"
    have f2': "i2 \<notin> fst ` set (positions ?pool1)"
      using ne f2 by (simp add: enterPosition_fresh(1) [OF f1] split: sum.splits)
    have sp: "sqrtPrice ?pool1 = sqrtPrice pool" by (rule enterPosition_fresh(2) [OF f1])
    show ?thesis
      unfolding enterPosition_liquidity [OF f2'] enterPosition_liquidity [OF f1] sp
      using added_liquidity_id [where i = i1 and j = i2 and p = "sqrtPrice pool"
              and s = "sqrtPrice pool" and d = d and rng = rng and dep = dep]
      by simp
  qed
  have empty: "getLiquidityInCurrentRange
            (snd (enterPosition (snd (enterPosition pool i1 rng dep)) i2 rng dep)) d
        = 2 * getLiquidityInCurrentRange (snd (enterPosition pool i1 rng dep)) d"
    if ne: "i1 \<noteq> i2" and e: "positions pool = []"
  proof -
    have z: "getLiquidityInCurrentRange pool d = 0"
      by (simp add: getLiquidityInCurrentRange_def getPositionsInRange_def e)
    from twice [OF ne] e z show ?thesis by simp
  qed
  show ?thesis
    using up down getLiquidityInCurrentRange_sum [of pool d] twice empty by blast
qed

theorem positions_in_range_and_liquidity_witness:
  "getLiquidityInCurrentRange (snd (enterPosition (newPool 1 0) ''a'' (1, 4) (ByLiquidity 5))) UP = 5
   \<and> getLiquidityInCurrentRange (snd (enterPosition (newPool 1 0) ''a'' (1, 4) (ByLiquidity 5))) DOWN = 0
   \<and> getLiquidityInCurrentRange
        (snd (enterPosition (snd (enterPosition (newPool 1 0) ''a'' (1, 4) (ByLiquidity 5)))
                ''b'' (1, 4) (ByLiquidity 5))) UP = 10"
proof -
  let ?pool1 = "snd (enterPosition (newPool 1 0) ''a'' (1, 4) (ByLiquidity 5))"
  let ?pool2 = "snd (enterPosition ?pool1 ''b'' (1, 4) (ByLiquidity 5))"
  have ps: "map (sqrtRange \<circ> snd) (positions ?pool1) = [(1, 2)]"
      "map (liquidity \<circ> snd) (positions ?pool1) = [5]"
    and sp: "sqrtPrice ?pool1 = 1"
    by (simp_all add: enterPosition_def newPool_def newPosition_ByLiquidity)
  have e: "positions (newPool 1 0) = []" by (simp add: newPool_def)
  have ne: "''a'' \<noteq> ''b''" by simp
  from positions_in_range_and_liquidity [of ?pool1 UP]
  have u: "getLiquidityInCurrentRange ?pool1 UP = sum_list (map liquidity (getPositionsInRange ?pool1 UP))"
    and u': "getPositionsInRange ?pool1 UP =
     filter (\<lambda>q. fst (sqrtRange q) \<le> sqrtPrice ?pool1 \<and> sqrtPrice ?pool1 < snd (sqrtRange q))
            (map snd (positions ?pool1))"
    by blast+
  from positions_in_range_and_liquidity [of ?pool1 DOWN]
  have d: "getLiquidityInCurrentRange ?pool1 DOWN = sum_list (map liquidity (getPositionsInRange ?pool1 DOWN))"
    and d': "getPositionsInRange ?pool1 DOWN =
     filter (\<lambda>q. fst (sqrtRange q) < sqrtPrice ?pool1 \<and> sqrtPrice ?pool1 \<le> snd (sqrtRange q))
            (map snd (positions ?pool1))"
    by blast+
  from positions_in_range_and_liquidity [of "newPool 1 0" UP "''a''" "''b''" "(1, 4)" "ByLiquidity 5"] ne e
  have t: "getLiquidityInCurrentRange ?pool2 UP = 2 * getLiquidityInCurrentRange ?pool1 UP"
    by blast
  obtain q where q: "map snd (positions ?pool1) = [q]" "sqrtRange q = (1, 2)" "liquidity q = 5"
    using ps by (cases "positions ?pool1") auto
  have a: "getLiquidityInCurrentRange ?pool1 UP = 5"
    unfolding u u' sp q(1) by (simp add: q)
  have b: "getLiquidityInCurrentRange ?pool1 DOWN = 0"
    unfolding d d' sp q(1) by (simp add: q)
  show ?thesis using a b t by simp
qed

text \<open>
  C3. \<^verbatim>\<open>getCurrentRange(d)\<close> fails, with "Out of range, no liquidity.", exactly when
  no position of the pool is in range for \<open>d\<close>. Otherwise it returns the greatest lower
  bound and the least upper bound of the positions in range for \<open>d\<close>: the interval it
  returns is the intersection of their intervals (all of them, not the first found).
\<close>

theorem getCurrentRange_intersection:
  "(getCurrentRange pool d = Inl OutOfRange \<longleftrightarrow>
      (\<forall>q \<in> snd ` set (positions pool). \<not> inRange d (sqrtPrice pool) q))
   \<and> ((\<exists>e. getCurrentRange pool d = Inl e) \<longleftrightarrow> getPositionsInRange pool d = [])
   \<and> (getPositionsInRange pool d \<noteq> [] \<longrightarrow>
        getCurrentRange pool d =
          Inr (Max ((fst \<circ> sqrtRange) ` set (getPositionsInRange pool d)),
               Min ((snd \<circ> sqrtRange) ` set (getPositionsInRange pool d))))
   \<and> (\<forall>r. getCurrentRange pool d = Inr r \<longrightarrow>
        {s. fst r \<le> s \<and> s \<le> snd r} =
          (\<Inter>q \<in> set (getPositionsInRange pool d).
              {s. fst (sqrtRange q) \<le> s \<and> s \<le> snd (sqrtRange q)}))"
proof -
  let ?ps = "getPositionsInRange pool d"
  have a: "getCurrentRange pool d = Inl OutOfRange \<longleftrightarrow>
      (\<forall>q \<in> snd ` set (positions pool). \<not> inRange d (sqrtPrice pool) q)"
    by (auto simp: getCurrentRange_eq getPositionsInRange_def filter_empty_conv)
  have b: "(\<exists>e. getCurrentRange pool d = Inl e) \<longleftrightarrow> ?ps = []"
    by (simp add: getCurrentRange_eq)
  have c: "?ps \<noteq> [] \<longrightarrow> getCurrentRange pool d =
          Inr (Max ((fst \<circ> sqrtRange) ` set ?ps), Min ((snd \<circ> sqrtRange) ` set ?ps))"
    by (simp add: getCurrentRange_eq)
  have e: "{s. fst r \<le> s \<and> s \<le> snd r} =
          (\<Inter>q \<in> set ?ps. {s. fst (sqrtRange q) \<le> s \<and> s \<le> snd (sqrtRange q)})"
    if r: "getCurrentRange pool d = Inr r" for r
  proof -
    from r have ne: "?ps \<noteq> []"
      and fr: "fst r = Max ((fst \<circ> sqrtRange) ` set ?ps)"
      and sr: "snd r = Min ((snd \<circ> sqrtRange) ` set ?ps)"
      by (auto simp: getCurrentRange_eq split: if_splits)
    have ne': "(fst \<circ> sqrtRange) ` set ?ps \<noteq> {}" "(snd \<circ> sqrtRange) ` set ?ps \<noteq> {}"
      using ne by simp_all
    have lo: "fst r \<le> s \<longleftrightarrow> (\<forall>q \<in> set ?ps. fst (sqrtRange q) \<le> s)" for s
      unfolding fr using Max_le_iff [OF _ ne'(1), of s] by simp
    have hi: "s \<le> snd r \<longleftrightarrow> (\<forall>q \<in> set ?ps. s \<le> snd (sqrtRange q))" for s
      unfolding sr using Min_ge_iff [OF _ ne'(2), of s] by simp
    show ?thesis by (auto simp: lo hi)
  qed
  show ?thesis using a b c e by blast
qed

theorem getCurrentRange_intersection_witness:
  "getCurrentRange rangesPool UP = Inr (3 / 4, 2)
   \<and> getCurrentRange (rangesPool \<lparr> sqrtPrice := 100 \<rparr>) UP = Inl OutOfRange"
proof -
  have ps: "map (fst \<circ> sqrtRange) (getPositionsInRange rangesPool UP) = [1 / 2, 3 / 4]"
    "map (snd \<circ> sqrtRange) (getPositionsInRange rangesPool UP) = [2, 3]"
    by (simp_all add: getPositionsInRange_def rangesPool_def inRange_def)
  then have ne: "getPositionsInRange rangesPool UP \<noteq> []" by auto
  have "Max ((fst \<circ> sqrtRange) ` set (getPositionsInRange rangesPool UP)) = 3 / 4"
    "Min ((snd \<circ> sqrtRange) ` set (getPositionsInRange rangesPool UP)) = 2"
    unfolding set_map [symmetric] ps by simp_all
  with getCurrentRange_intersection [of rangesPool UP] ne
  have a: "getCurrentRange rangesPool UP = Inr (3 / 4, 2)" by simp
  have "\<forall>q \<in> snd ` set (positions (rangesPool \<lparr> sqrtPrice := 100 \<rparr>)).
          \<not> inRange UP (sqrtPrice (rangesPool \<lparr> sqrtPrice := 100 \<rparr>)) q"
    by (simp add: rangesPool_def inRange_def)
  with getCurrentRange_intersection [of "rangesPool \<lparr> sqrtPrice := 100 \<rparr>" UP]
  have b: "getCurrentRange (rangesPool \<lparr> sqrtPrice := 100 \<rparr>) UP = Inl OutOfRange" by blast
  show ?thesis using a b by simp
qed

subsection \<open>Liquidity math\<close>

text \<open>
  \<^verbatim>\<open>getMaxLiquidity\<close> computes with \<open>getLiquidityN\<close> and \<open>getTokenAmountsN\<close>: on
  finite numbers, where no divisor is zero and the discriminant is not negative, they are
  \<open>getLiquidity\<close> and \<open>getTokenAmounts\<close>. A deposit of X alone inside the range gets the
  liquidity \<open>- 1000 * EPSILON\<close>; a deposit of Y alone with the price at the upper bound
  gets \<^verbatim>\<open>NaN\<close>, and is not registered.
\<close>

lemma twice_nonzero: "(c::real) \<noteq> 1 \<Longrightarrow> 2 * (c - 1) \<noteq> 0"
  by simp

lemma getLiquidityN_Num:
  assumes "snd r \<noteq> 0" and "fst r \<noteq> snd r"
    and "0 \<le> (x * fst r + y / snd r) ^ 2 - 4 * (fst r / snd r - 1) * (x * y)"
  shows "getLiquidityN (Num x, Num y) r = Num (getLiquidity \<lparr> amount_x = x, amount_y = y \<rparr> r)"
proof -
  have q: "fst r / snd r \<noteq> 1" using assms(1,2) by (simp only: divide_eq_1_iff simp_thms)
  have a: "2 * (fst r / snd r - 1) \<noteq> 0" by (rule twice_nonzero [OF q])
  then have a': "2 * fst r / snd r \<noteq> 2" by simp
  show ?thesis
    using assms(1,3) a'
    by (simp add: getLiquidityN_def getLiquidity_def js_sub_def Let_def power2_eq_square)
qed

lemma getTokenAmountsN_Num:
  assumes "snd sr \<noteq> 0"
    and "(if sp > snd sr then snd sr else if sp < fst sr then fst sr else sp) \<noteq> 0"
  shows "getTokenAmountsN (Num l) sr sp =
           (Num (amount_x (getTokenAmounts l sr sp)), Num (amount_y (getTokenAmounts l sr sp)))"
  using assms
  by (simp add: getTokenAmountsN_def getTokenAmounts_def js_sub_def Let_def)

lemma sqrt_quarter: "sqrt (1 / 4) = 1 / 2"
  by (rule real_sqrt_unique) (simp_all add: power2_eq_square)

lemma getMaxLiquidity_no_y:
  "getMaxLiquidity \<lparr> amount_x = 1, amount_y = 0 \<rparr> (1 / 2, 2) 1 = Num (- (1000 * EPSILON))"
proof -
  have l: "getLiquidityN (Num 1, Num 0) (1 / 2, 2) = Num (2 / 3)"
    by (simp add: getLiquidityN_def js_sub_def Let_def sqrt_quarter)
  have t: "getTokenAmountsN (Num (2 / 3)) (1 / 2, 2) 1 = (Num (1 / 3), Num (1 / 3))"
    by (simp add: getTokenAmountsN_def js_sub_def Let_def)
  have z: "getLiquidityN (Num 0, Num 0) (1 / 2, 2) = Num 0"
    by (simp add: getLiquidityN_def js_sub_def Let_def)
  show ?thesis
    by (simp add: getMaxLiquidity_def l t z js_sub_def Let_def)
qed

lemma getMaxLiquidity_no_x_above:
  "getMaxLiquidity \<lparr> amount_x = 0, amount_y = 1 \<rparr> (1 / 2, 2) 2 = NaN"
proof -
  have l: "getLiquidityN (Num 0, Num 1) (1 / 2, 2) = Num (2 / 3)"
    by (simp add: getLiquidityN_def js_sub_def Let_def sqrt_quarter)
  have t: "getTokenAmountsN (Num (2 / 3)) (1 / 2, 2) 2 = (Num 0, Num 1)"
    by (simp add: getTokenAmountsN_def js_sub_def Let_def)
  have n: "getLiquidityN (Num 0, NaN) (1 / 2, 2) = NaN"
    by (simp add: getLiquidityN_def js_sub_def Let_def)
  show ?thesis
    by (simp add: getMaxLiquidity_def l t n js_sub_def Let_def)
qed

lemma enterPosition_no_x_above:
  "enterPosition (newPool 4 0) ''a'' (1 / 4, 4) (ByBalance \<lparr> amount_x = 0, amount_y = 1 \<rparr>)
     = (Inl NonFinite, newPool 4 0)"
  using getMaxLiquidity_no_x_above
  by (simp add: enterPosition_def newPosition_def newPool_def real_sqrt_divide)

text \<open>
  C4. For a liquidity \<open>L \<ge> 0\<close>, a sqrt-range \<open>[lo, hi]\<close> with \<open>0 < lo < hi\<close> and a
  sqrt-price \<open>p > 0\<close>, \<^verbatim>\<open>getTokenAmounts\<close> clamps \<open>p\<close> into \<open>[lo, hi]\<close> and returns
  \<open>x = L / clamped - L / hi\<close> and \<open>y = L * clamped - L * lo\<close>; at or above \<open>hi\<close> the
  balance has \<open>x = 0\<close>, at or below \<open>lo\<close> it has \<open>y = 0\<close>.
\<close>

theorem getTokenAmounts_clamped:
  assumes "0 \<le> L" and "0 < lo" and "lo < hi" and "0 < p"
  shows "getTokenAmounts L (lo, hi) p =
           \<lparr> amount_x = L / max lo (min hi p) - L / hi,
             amount_y = L * max lo (min hi p) - L * lo \<rparr>
       \<and> lo \<le> max lo (min hi p) \<and> max lo (min hi p) \<le> hi
       \<and> (hi \<le> p \<longrightarrow> amount_x (getTokenAmounts L (lo, hi) p) = 0)
       \<and> (p \<le> lo \<longrightarrow> amount_y (getTokenAmounts L (lo, hi) p) = 0)"
  using assms by (auto simp: getTokenAmounts_def Let_def min_def max_def)

theorem getTokenAmounts_clamped_witness:
  "getTokenAmounts 6 (1, 2) 3 = \<lparr> amount_x = 0, amount_y = 6 \<rparr>
   \<and> getTokenAmounts 6 (2, 3) 1 = \<lparr> amount_x = 1, amount_y = 0 \<rparr>"
  using getTokenAmounts_clamped [of 6 1 2 3] getTokenAmounts_clamped [of 6 2 3 1]
  by simp

text \<open>
  C5. \<^verbatim>\<open>getDInvSqrtPrice\<close> is the change of \<open>1 / p\<close> when the sqrt-price \<open>p > 0\<close> changes
  by \<open>d\<close> to \<open>p + d > 0\<close>, that is \<open>- d / (p * (p + d))\<close>, and \<^verbatim>\<open>getDSqrtPrice\<close> is its
  inverse, in exact arithmetic: each undoes the other (the second composition wherever
  \<open>1 + d' * p \<noteq> 0\<close>).
\<close>

theorem sqrt_price_conversions_inverse:
  assumes "0 < sqrtPrice pool" and "0 < sqrtPrice pool + d" and "1 + d' * sqrtPrice pool \<noteq> 0"
  shows "getDInvSqrtPrice pool d = - d / (sqrtPrice pool * (sqrtPrice pool + d))
       \<and> getDInvSqrtPrice pool d = 1 / (sqrtPrice pool + d) - 1 / sqrtPrice pool
       \<and> getDSqrtPrice pool (getDInvSqrtPrice pool d) = d
       \<and> getDInvSqrtPrice pool (getDSqrtPrice pool d') = d'"
proof -
  let ?p = "sqrtPrice pool"
  have p: "?p \<noteq> 0" and q: "?p + d \<noteq> 0" using assms by simp_all
  have den: "?p ^ 2 + ?p * d = ?p * (?p + d)"
    by (simp add: power2_eq_square algebra_simps)
  have a: "getDInvSqrtPrice pool d = - d / (?p * (?p + d))"
    by (simp only: getDInvSqrtPrice_def den)
  have "1 / (?p + d) - 1 / ?p = (?p - (?p + d)) / (?p * (?p + d))"
    using p q by (simp add: diff_frac_eq mult.commute)
  then have b: "getDInvSqrtPrice pool d = 1 / (?p + d) - 1 / ?p"
    by (simp add: a)
  show ?thesis
    using a b getDSqrt_getDInv [OF p q] getDInv_getDSqrt [OF p assms(3)] by simp
qed

theorem sqrt_price_conversions_inverse_witness:
  "getDInvSqrtPrice \<lparr> positions = [], sqrtPrice = 2, feeRate = 0 \<rparr> 1 = - (1 / 6)
   \<and> getDSqrtPrice \<lparr> positions = [], sqrtPrice = 2, feeRate = 0 \<rparr>
        (getDInvSqrtPrice \<lparr> positions = [], sqrtPrice = 2, feeRate = 0 \<rparr> 1) = 1
   \<and> getDInvSqrtPrice \<lparr> positions = [], sqrtPrice = 2, feeRate = 0 \<rparr>
        (getDSqrtPrice \<lparr> positions = [], sqrtPrice = 2, feeRate = 0 \<rparr> 3) = 3"
proof -
  let ?P = "\<lparr> positions = [], sqrtPrice = 2, feeRate = 0 \<rparr>"
  have "0 < sqrtPrice ?P" "0 < sqrtPrice ?P + 1" "1 + 3 * sqrtPrice ?P \<noteq> 0" by simp_all
  from sqrt_price_conversions_inverse [OF this]
  have "getDInvSqrtPrice ?P 1 = - 1 / (sqrtPrice ?P * (sqrtPrice ?P + 1))"
    and "getDSqrtPrice ?P (getDInvSqrtPrice ?P 1) = 1"
    and "getDInvSqrtPrice ?P (getDSqrtPrice ?P 3) = 3" by blast+
  moreover have "- 1 / (sqrtPrice ?P * (sqrtPrice ?P + 1)) = - (1 / 6)" by simp
  ultimately show ?thesis by (simp only:)
qed

subsection \<open>Exit and zero-distance move\<close>

lemma delete_filter: "AList.delete i ps = filter (\<lambda>e. fst e \<noteq> i) ps"
  by (induction ps) auto

text \<open>
  C8. \<^verbatim>\<open>exitPosition(id)\<close> on an id that is not in the map fails with "Position
  doesn't exist" and leaves the pool as it was. On an id of the map it returns the
  position's balance at the pool's current price plus its rewards, component by
  component, and removes the position from the map: the id is not found afterwards,
  every other id is found as before, and the price and the fee rate are unchanged.
\<close>

theorem exitPosition_spec:
  "(map_of (positions pool) i = None \<longrightarrow>
      exitPosition pool i = (Inl PositionDoesntExist, pool))
   \<and> (\<forall>position. map_of (positions pool) i = Some position \<longrightarrow>
        fst (exitPosition pool i) =
          Inr \<lparr> amount_x = amount_x (getTokenAmounts (liquidity position) (sqrtRange position)
                                       (sqrtPrice pool)) + amount_x (rewards position),
                amount_y = amount_y (getTokenAmounts (liquidity position) (sqrtRange position)
                                       (sqrtPrice pool)) + amount_y (rewards position) \<rparr>
        \<and> getPosition (snd (exitPosition pool i)) i = None
        \<and> (\<forall>j. j \<noteq> i \<longrightarrow> getPosition (snd (exitPosition pool i)) j = getPosition pool j)
        \<and> map snd (positions (snd (exitPosition pool i)))
            = map snd (filter (\<lambda>e. fst e \<noteq> i) (positions pool))
        \<and> sqrtPrice (snd (exitPosition pool i)) = sqrtPrice pool
        \<and> feeRate (snd (exitPosition pool i)) = feeRate pool)"
proof (intro conjI allI impI)
  assume "map_of (positions pool) i = None"
  then show "exitPosition pool i = (Inl PositionDoesntExist, pool)"
    by (simp add: exitPosition_def)
next
  fix position
  assume some: "map_of (positions pool) i = Some position"
  then have pool': "snd (exitPosition pool i) = pool \<lparr> positions := AList.delete i (positions pool) \<rparr>"
    by (simp add: exitPosition_def)
  show "fst (exitPosition pool i) =
          Inr \<lparr> amount_x = amount_x (getTokenAmounts (liquidity position) (sqrtRange position)
                                       (sqrtPrice pool)) + amount_x (rewards position),
                amount_y = amount_y (getTokenAmounts (liquidity position) (sqrtRange position)
                                       (sqrtPrice pool)) + amount_y (rewards position) \<rparr>"
    using some by (simp add: exitPosition_def balance_def)
  show "getPosition (snd (exitPosition pool i)) i = None"
    by (simp add: pool' getPosition_def delete_conv')
  show "map snd (positions (snd (exitPosition pool i)))
            = map snd (filter (\<lambda>e. fst e \<noteq> i) (positions pool))"
    by (simp add: pool' delete_filter)
  show "sqrtPrice (snd (exitPosition pool i)) = sqrtPrice pool"
    by (simp add: pool')
  show "feeRate (snd (exitPosition pool i)) = feeRate pool"
    by (simp add: pool')
  fix j assume "j \<noteq> i"
  then show "getPosition (snd (exitPosition pool i)) j = getPosition pool j"
    by (simp add: pool' getPosition_def)
qed

theorem exitPosition_spec_witness:
  "exitPosition (snd (enterPosition (newPool 1 0) ''a'' (1, 4) (ByLiquidity 2))) ''b''
     = (Inl PositionDoesntExist, snd (enterPosition (newPool 1 0) ''a'' (1, 4) (ByLiquidity 2)))
   \<and> fst (exitPosition (snd (enterPosition (newPool 1 0) ''a'' (1, 4) (ByLiquidity 2))) ''a'')
     = Inr \<lparr> amount_x = 1, amount_y = 0 \<rparr>
   \<and> positions (snd (exitPosition
         (snd (enterPosition (newPool 1 0) ''a'' (1, 4) (ByLiquidity 2))) ''a'')) = []"
proof -
  let ?pool = "snd (enterPosition (newPool 1 0) ''a'' (1, 4) (ByLiquidity 2))"
  let ?pos = "\<lparr> id_pos = ''a'', sqrtRange = (1, 2), liquidity = 2,
                initialBalance = getTokenAmounts 2 (1, 2) 1,
                rewards = \<lparr> amount_x = 0, amount_y = 0 \<rparr> \<rparr>"
  have ps: "positions ?pool = [(''a'', ?pos)]"
    by (simp add: enterPosition_def newPool_def newPosition_ByLiquidity)
  have sp: "sqrtPrice ?pool = 1"
    by (simp add: enterPosition_def newPool_def newPosition_ByLiquidity)
  have none: "map_of (positions ?pool) ''b'' = None" by (simp add: ps)
  have some: "map_of (positions ?pool) ''a'' = Some ?pos" by (simp add: ps)
  have bal: "getTokenAmounts (liquidity ?pos) (sqrtRange ?pos) 1 = \<lparr> amount_x = 1, amount_y = 0 \<rparr>"
    by (simp add: getTokenAmounts_def)
  have rw: "rewards ?pos = \<lparr> amount_x = 0, amount_y = 0 \<rparr>"
    by simp
  from exitPosition_spec [of ?pool "''a''"] some
  have a: "fst (exitPosition ?pool ''a'') =
          Inr \<lparr> amount_x = amount_x (getTokenAmounts (liquidity ?pos) (sqrtRange ?pos)
                                       (sqrtPrice ?pool)) + amount_x (rewards ?pos),
                amount_y = amount_y (getTokenAmounts (liquidity ?pos) (sqrtRange ?pos)
                                       (sqrtPrice ?pool)) + amount_y (rewards ?pos) \<rparr>"
    and b: "map snd (positions (snd (exitPosition ?pool ''a'')))
            = map snd (filter (\<lambda>e. fst e \<noteq> ''a'') (positions ?pool))"
    by blast+
  from exitPosition_spec [of ?pool "''b''"] none
  have c: "exitPosition ?pool ''b'' = (Inl PositionDoesntExist, ?pool)" by blast
  have a': "fst (exitPosition ?pool ''a'') = Inr \<lparr> amount_x = 1, amount_y = 0 \<rparr>"
    unfolding a sp bal rw by simp
  have b': "positions (snd (exitPosition ?pool ''a'')) = []"
    using b unfolding ps by simp
  show ?thesis using a' b' c by (simp only:)
qed

text \<open>
  C10. \<^verbatim>\<open>movePrice(targetPrice)\<close> with \<open>sqrt targetPrice\<close> equal to the pool's
  sqrt-price returns the delta \<open>(0, 0)\<close> with no error and leaves the whole pool (price,
  position map, rewards) as it was, whatever the positions are (none, too): the range
  and liquidity checks are not reached.
\<close>

theorem movePrice_zero_distance:
  assumes "0 \<le> targetPrice" and "sqrt targetPrice = sqrtPrice pool"
  shows "movePrice pool targetPrice = (Inr \<lparr> amount_x = 0, amount_y = 0 \<rparr>, pool)"
  using assms by (simp add: movePrice_def)

theorem movePrice_zero_distance_witness:
  "movePrice (newPool 4 0) 4 = (Inr \<lparr> amount_x = 0, amount_y = 0 \<rparr>, newPool 4 0)
   \<and> positions (newPool 4 0) = []"
  using movePrice_zero_distance [of 4 "newPool 4 0"]
  by (simp add: newPool_def)

subsection \<open>Fees of a sale over two segments\<close>

lemma sqrt_9: "sqrt 9 = 3"
proof -
  have "sqrt 9 = sqrt (3 ^ 2)" by simp
  also have "\<dots> = 3" by (simp only: real_sqrt_abs abs_numeral)
  finally show ?thesis .
qed

lemma twoRangePool_eq:
  "twoRangePool =
     \<lparr> positions =
         [(''a'', \<lparr> id_pos = ''a'', sqrtRange = (1, 2), liquidity = 1,
                   initialBalance = \<lparr> amount_x = 1 / 2, amount_y = 0 \<rparr>,
                   rewards = \<lparr> amount_x = 0, amount_y = 0 \<rparr> \<rparr>),
          (''b'', \<lparr> id_pos = ''b'', sqrtRange = (2, 3), liquidity = 1,
                   initialBalance = \<lparr> amount_x = 1 / 6, amount_y = 0 \<rparr>,
                   rewards = \<lparr> amount_x = 0, amount_y = 0 \<rparr> \<rparr>)],
       sqrtPrice = 1, feeRate = 1 / 2 \<rparr>"
  by (simp add: twoRangePool_def enterPosition_def newPool_def newPosition_def Let_def
        getTokenAmounts_def sqrt_9)

lemmas segment_eval =
  getCurrentRange_def getPositionsInRange_def inRange_def narrow_def
  getLiquidityInCurrentRange_def getDInvSqrtPrice_def getDSqrtPrice_def
  addFeesToPositions_def addReward_def Let_def

lemma twoRangePool_segment1:
  "sellY_segment 2 twoRangePool 0 2 =
     Inr (\<lparr> positions =
         [(''a'', \<lparr> id_pos = ''a'', sqrtRange = (1, 2), liquidity = 1,
                   initialBalance = \<lparr> amount_x = 1 / 2, amount_y = 0 \<rparr>,
                   rewards = \<lparr> amount_x = 0, amount_y = 1 \<rparr> \<rparr>),
          (''b'', \<lparr> id_pos = ''b'', sqrtRange = (2, 3), liquidity = 1,
                   initialBalance = \<lparr> amount_x = 1 / 6, amount_y = 0 \<rparr>,
                   rewards = \<lparr> amount_x = 0, amount_y = 0 \<rparr> \<rparr>)],
       sqrtPrice = 2, feeRate = 1 / 2 \<rparr>, - (1 / 2), 1)"
  unfolding twoRangePool_eq
  by (simp add: sellY_segment_def segment_eval)

lemma twoRangePool_segment2:
  "sellY_segment 2 \<lparr> positions =
         [(''a'', \<lparr> id_pos = ''a'', sqrtRange = (1, 2), liquidity = 1,
                   initialBalance = \<lparr> amount_x = 1 / 2, amount_y = 0 \<rparr>,
                   rewards = \<lparr> amount_x = 0, amount_y = 1 \<rparr> \<rparr>),
          (''b'', \<lparr> id_pos = ''b'', sqrtRange = (2, 3), liquidity = 1,
                   initialBalance = \<lparr> amount_x = 1 / 6, amount_y = 0 \<rparr>,
                   rewards = \<lparr> amount_x = 0, amount_y = 0 \<rparr> \<rparr>)],
       sqrtPrice = 2, feeRate = 1 / 2 \<rparr> (- (1 / 2)) 1 =
     Inr (\<lparr> positions =
         [(''a'', \<lparr> id_pos = ''a'', sqrtRange = (1, 2), liquidity = 1,
                   initialBalance = \<lparr> amount_x = 1 / 2, amount_y = 0 \<rparr>,
                   rewards = \<lparr> amount_x = 0, amount_y = 1 \<rparr> \<rparr>),
          (''b'', \<lparr> id_pos = ''b'', sqrtRange = (2, 3), liquidity = 1,
                   initialBalance = \<lparr> amount_x = 1 / 6, amount_y = 0 \<rparr>,
                   rewards = \<lparr> amount_x = 0, amount_y = 2 \<rparr> \<rparr>)],
       sqrtPrice = 3, feeRate = 1 / 2 \<rparr>, - (2 / 3), 0)"
  by (simp add: sellY_segment_def segment_eval)

text \<open>A sale that one segment fills pays the positions in range the fee \<open>a * feeRate\<close>,
  each in proportion of its liquidity, and the others nothing.\<close>

lemma reward_addReward:
  "reward tok (addReward tok' f q) = reward tok q + (if tok = tok' then f else 0)"
  by (cases tok; cases tok') (simp_all add: reward_def addReward_def)

lemma addFees_positions:
  "positions (addFeesToPositions pool F L tok d) =
     map (\<lambda>(i, q). (i, if inRange d (sqrtPrice pool) q
                         then addReward tok (liquidity q / L * F) q else q)) (positions pool)"
  by (simp add: addFeesToPositions_def)

lemma sum_rewards_addFees:
  "sum_list (map (reward tok \<circ> snd)
      (map (\<lambda>(i, q). (i, if P q then addReward tok (liquidity q / L * F) q else q)) ps))
   = sum_list (map (reward tok \<circ> snd) ps)
     + sum_list (map liquidity (filter P (map snd ps))) / L * F"
  by (induction ps) (auto simp: reward_addReward add_divide_distrib distrib_right)

lemma totalRewards_addFees:
  "totalRewards tok (addFeesToPositions pool F L tok d) =
     totalRewards tok pool + getLiquidityInCurrentRange pool d / L * F"
  unfolding totalRewards_def addFees_positions sum_rewards_addFees
  by (simp add: getLiquidityInCurrentRange_sum getPositionsInRange_def)

lemma sellY_one_segment_fees:
  assumes a: "0 < a" and f: "feeRate pool < 1"
    and r: "getCurrentRange pool UP = Inr r"
    and L: "getLiquidityInCurrentRange pool UP \<noteq> 0"
    and fits: "(a - a * feeRate pool) / getLiquidityInCurrentRange pool UP
                 \<le> snd r - sqrtPrice pool"
    and nz: "sqrtPrice pool ^ 2 + sqrtPrice pool
               * ((a - a * feeRate pool) / getLiquidityInCurrentRange pool UP) \<noteq> 0"
  shows "\<exists>v pool'. sellY pool a = (Inr v, pool')
           \<and> positions pool' =
               map (\<lambda>(i, q). (i, if inRange UP (sqrtPrice pool) q
                      then addReward TokenY
                             (liquidity q / getLiquidityInCurrentRange pool UP
                                * (a * feeRate pool)) q
                      else q)) (positions pool)
           \<and> totalRewards TokenY pool' = totalRewards TokenY pool + a * feeRate pool"
proof -
  let ?L = "getLiquidityInCurrentRange pool UP"
  let ?fees = "a * feeRate pool"
  let ?dY = "a - ?fees"
  have dY: "0 < ?dY"
  proof -
    have "?dY = a * (1 - feeRate pool)" by (simp add: algebra_simps)
    then show ?thesis using a f by simp
  qed
  have m: "min (?dY / ?L) (snd r - sqrtPrice pool) = ?dY / ?L" using fits by simp
  have part: "?dY / ?L * ?L = ?dY" using L by simp
  have dYnz: "?dY \<noteq> 0" using dY by linarith
  have pf: "?fees * ?dY / ?dY = ?fees" by (rule nonzero_mult_div_cancel_right [OF dYnz])
  define pool1 where "pool1 = (addFeesToPositions pool ?fees ?L TokenY UP)
                                \<lparr> sqrtPrice := sqrtPrice pool + ?dY / ?L \<rparr>"
  have seg: "sellY_segment ?fees pool 0 ?dY =
               Inr (pool1, ?L * getDInvSqrtPrice pool (?dY / ?L), 0)"
    using L nz by (simp add: sellY_segment_def r m part pf pool1_def Let_def)
  have "sellY pool a = sellY_loop ?fees pool 0 ?dY"
    using a by (simp add: sellY_def Let_def)
  also have "\<dots> = sellY_loop ?fees pool1 (?L * getDInvSqrtPrice pool (?dY / ?L)) 0"
    using dY by (subst sellY_loop.simps) (simp add: seg)
  also have "\<dots> = (Inr (- (?L * getDInvSqrtPrice pool (?dY / ?L))), pool1)"
    by (subst sellY_loop.simps) simp
  finally have res: "sellY pool a = (Inr (- (?L * getDInvSqrtPrice pool (?dY / ?L))), pool1)" .
  have ps: "positions pool1 = map (\<lambda>(i, q). (i, if inRange UP (sqrtPrice pool) q
                      then addReward TokenY (liquidity q / ?L * ?fees) q
                      else q)) (positions pool)"
    by (simp add: pool1_def addFees_positions)
  have "totalRewards TokenY pool1 = totalRewards TokenY (addFeesToPositions pool ?fees ?L TokenY UP)"
    by (simp add: totalRewards_def pool1_def)
  also have "\<dots> = totalRewards TokenY pool + ?L / ?L * ?fees"
    by (rule totalRewards_addFees)
  finally have tot: "totalRewards TokenY pool1 = totalRewards TokenY pool + ?fees"
    using L by simp
  show ?thesis using res ps tot by blast
qed

lemma sellX_one_segment_fees:
  assumes a: "0 < a" and f: "feeRate pool < 1"
    and r: "getCurrentRange pool DOWN = Inr r"
    and L: "getLiquidityInCurrentRange pool DOWN \<noteq> 0"
    and p: "sqrtPrice pool \<noteq> 0"
    and d1: "1 + (a - a * feeRate pool) / getLiquidityInCurrentRange pool DOWN * sqrtPrice pool \<noteq> 0"
    and fits: "fst r - sqrtPrice pool
                 \<le> getDSqrtPrice pool ((a - a * feeRate pool) / getLiquidityInCurrentRange pool DOWN)"
    and nz: "sqrtPrice pool ^ 2 + sqrtPrice pool
               * getDSqrtPrice pool ((a - a * feeRate pool) / getLiquidityInCurrentRange pool DOWN) \<noteq> 0"
  shows "\<exists>v pool'. sellX pool a = (Inr v, pool')
           \<and> positions pool' =
               map (\<lambda>(i, q). (i, if inRange DOWN (sqrtPrice pool) q
                      then addReward TokenX
                             (liquidity q / getLiquidityInCurrentRange pool DOWN
                                * (a * feeRate pool)) q
                      else q)) (positions pool)
           \<and> totalRewards TokenX pool' = totalRewards TokenX pool + a * feeRate pool"
proof -
  let ?L = "getLiquidityInCurrentRange pool DOWN"
  let ?fees = "a * feeRate pool"
  let ?dX = "a - ?fees"
  let ?ds = "getDSqrtPrice pool (?dX / ?L)"
  have dX: "0 < ?dX"
  proof -
    have "?dX = a * (1 - feeRate pool)" by (simp add: algebra_simps)
    then show ?thesis using a f by simp
  qed
  have m: "max ?ds (fst r - sqrtPrice pool) = ?ds" using fits by simp
  have part: "?L * getDInvSqrtPrice pool ?ds = ?dX"
    using getDInv_getDSqrt [OF p d1] L by simp
  have dXnz: "?dX \<noteq> 0" using dX by linarith
  have pf: "?fees * ?dX / ?dX = ?fees" by (rule nonzero_mult_div_cancel_right [OF dXnz])
  define pool1 where "pool1 = (addFeesToPositions pool ?fees ?L TokenX DOWN)
                                \<lparr> sqrtPrice := sqrtPrice pool + ?ds \<rparr>"
  have seg: "sellX_segment ?fees pool ?dX 0 = Inr (pool1, 0, ?ds * ?L)"
    using L nz d1 by (simp add: sellX_segment_def r m part pf pool1_def Let_def)
  have "sellX pool a = sellX_loop ?fees pool ?dX 0"
    using a by (simp add: sellX_def Let_def)
  also have "\<dots> = sellX_loop ?fees pool1 0 (?ds * ?L)"
    using dX by (subst sellX_loop.simps) (simp add: seg)
  also have "\<dots> = (Inr (- (?ds * ?L)), pool1)"
    by (subst sellX_loop.simps) simp
  finally have res: "sellX pool a = (Inr (- (?ds * ?L)), pool1)" .
  have ps: "positions pool1 = map (\<lambda>(i, q). (i, if inRange DOWN (sqrtPrice pool) q
                      then addReward TokenX (liquidity q / ?L * ?fees) q
                      else q)) (positions pool)"
    by (simp add: pool1_def addFees_positions)
  have "totalRewards TokenX pool1 = totalRewards TokenX (addFeesToPositions pool ?fees ?L TokenX DOWN)"
    by (simp add: totalRewards_def pool1_def)
  also have "\<dots> = totalRewards TokenX pool + ?L / ?L * ?fees"
    by (rule totalRewards_addFees)
  finally have tot: "totalRewards TokenX pool1 = totalRewards TokenX pool + ?fees"
    using L by simp
  show ?thesis using res ps tot by blast
qed

text \<open>
  C1, at a sale that crosses from one range into the next. On \<open>twoRangePool\<close> (fee rate
  1/2, rewards all zero), \<^verbatim>\<open>sellY(4)\<close> completes, returning 2/3, in two segments. The
  fee is \<open>4 * 1/2 = 2\<close>, but the rewards in Y grow by 1 for the first position and by 2
  for the second, 3 in all: the second segment's share is computed against the amount
  that remains to sell, not against the whole amount.
\<close>

theorem sellY_two_segments_overpays_fees:
  "fst (sellY twoRangePool 4) = Inr (2 / 3)
   \<and> map (\<lambda>(i, q). (i, amount_y (rewards q))) (positions twoRangePool)
       = [(''a'', 0), (''b'', 0)]
   \<and> map (\<lambda>(i, q). (i, amount_y (rewards q))) (positions (snd (sellY twoRangePool 4)))
       = [(''a'', 1), (''b'', 2)]
   \<and> 4 * feeRate twoRangePool = 2"
proof -
  have fr: "feeRate twoRangePool = 1 / 2" by (simp add: twoRangePool_eq)
  have "sellY twoRangePool 4 = sellY_loop 2 twoRangePool 0 2"
    by (simp add: sellY_def fr)
  also have "\<dots> = sellY_loop 2 \<lparr> positions =
         [(''a'', \<lparr> id_pos = ''a'', sqrtRange = (1, 2), liquidity = 1,
                   initialBalance = \<lparr> amount_x = 1 / 2, amount_y = 0 \<rparr>,
                   rewards = \<lparr> amount_x = 0, amount_y = 1 \<rparr> \<rparr>),
          (''b'', \<lparr> id_pos = ''b'', sqrtRange = (2, 3), liquidity = 1,
                   initialBalance = \<lparr> amount_x = 1 / 6, amount_y = 0 \<rparr>,
                   rewards = \<lparr> amount_x = 0, amount_y = 0 \<rparr> \<rparr>)],
       sqrtPrice = 2, feeRate = 1 / 2 \<rparr> (- (1 / 2)) 1"
    by (subst sellY_loop.simps) (simp add: twoRangePool_segment1)
  also have "\<dots> = sellY_loop 2 \<lparr> positions =
         [(''a'', \<lparr> id_pos = ''a'', sqrtRange = (1, 2), liquidity = 1,
                   initialBalance = \<lparr> amount_x = 1 / 2, amount_y = 0 \<rparr>,
                   rewards = \<lparr> amount_x = 0, amount_y = 1 \<rparr> \<rparr>),
          (''b'', \<lparr> id_pos = ''b'', sqrtRange = (2, 3), liquidity = 1,
                   initialBalance = \<lparr> amount_x = 1 / 6, amount_y = 0 \<rparr>,
                   rewards = \<lparr> amount_x = 0, amount_y = 2 \<rparr> \<rparr>)],
       sqrtPrice = 3, feeRate = 1 / 2 \<rparr> (- (2 / 3)) 0"
    by (subst sellY_loop.simps) (simp add: twoRangePool_segment2)
  also have "\<dots> = (Inr (2 / 3), \<lparr> positions =
         [(''a'', \<lparr> id_pos = ''a'', sqrtRange = (1, 2), liquidity = 1,
                   initialBalance = \<lparr> amount_x = 1 / 2, amount_y = 0 \<rparr>,
                   rewards = \<lparr> amount_x = 0, amount_y = 1 \<rparr> \<rparr>),
          (''b'', \<lparr> id_pos = ''b'', sqrtRange = (2, 3), liquidity = 1,
                   initialBalance = \<lparr> amount_x = 1 / 6, amount_y = 0 \<rparr>,
                   rewards = \<lparr> amount_x = 0, amount_y = 2 \<rparr> \<rparr>)],
       sqrtPrice = 3, feeRate = 1 / 2 \<rparr>)"
    by (subst sellY_loop.simps) simp
  finally have r: "sellY twoRangePool 4 = (Inr (2 / 3), \<lparr> positions =
         [(''a'', \<lparr> id_pos = ''a'', sqrtRange = (1, 2), liquidity = 1,
                   initialBalance = \<lparr> amount_x = 1 / 2, amount_y = 0 \<rparr>,
                   rewards = \<lparr> amount_x = 0, amount_y = 1 \<rparr> \<rparr>),
          (''b'', \<lparr> id_pos = ''b'', sqrtRange = (2, 3), liquidity = 1,
                   initialBalance = \<lparr> amount_x = 1 / 6, amount_y = 0 \<rparr>,
                   rewards = \<lparr> amount_x = 0, amount_y = 2 \<rparr> \<rparr>)],
       sqrtPrice = 3, feeRate = 1 / 2 \<rparr>)" .
  show ?thesis
    unfolding r by (simp add: twoRangePool_eq)
qed

subsection \<open>A purchase beyond the reserve\<close>

lemma wideRangePool_eq:
  "wideRangePool =
     \<lparr> positions =
         [(''a'', \<lparr> id_pos = ''a'', sqrtRange = (1 / 2, 2), liquidity = 1,
                   initialBalance = \<lparr> amount_x = 1 / 2, amount_y = 1 / 2 \<rparr>,
                   rewards = \<lparr> amount_x = 0, amount_y = 0 \<rparr> \<rparr>)],
       sqrtPrice = 1, feeRate = 1 / 2 \<rparr>"
  by (simp add: wideRangePool_def enterPosition_def newPool_def newPosition_def Let_def
        getTokenAmounts_def real_sqrt_divide)

lemma wideRangePool_segment:
  "buyX_segment wideRangePool (- 2) 0 =
     Inr (\<lparr> positions =
         [(''a'', \<lparr> id_pos = ''a'', sqrtRange = (1 / 2, 2), liquidity = 1,
                   initialBalance = \<lparr> amount_x = 1 / 2, amount_y = 1 / 2 \<rparr>,
                   rewards = \<lparr> amount_x = 0, amount_y = - 2 \<rparr> \<rparr>)],
       sqrtPrice = - 1, feeRate = 1 / 2 \<rparr>, 0, - 4)"
  unfolding wideRangePool_eq
  by (simp add: buyX_segment_def segment_eval)

text \<open>On a well-formed pool \<^verbatim>\<open>sellY\<close>, \<^verbatim>\<open>sellX\<close>, \<^verbatim>\<open>buyY\<close> and \<^verbatim>\<open>movePrice\<close>
  lower no reward, whatever their argument, and whether they return or throw.\<close>

lemma rewardsGrow_refl: "rewardsGrow pool pool"
  by (simp add: rewardsGrow_def list_all2_same split_beta)

lemma rewardsGrow_trans:
  assumes "rewardsGrow a b" and "rewardsGrow b c"
  shows "rewardsGrow a c"
  unfolding rewardsGrow_def
  by (rule list_all2_trans [OF _ assms(1) [unfolded rewardsGrow_def]
              assms(2) [unfolded rewardsGrow_def]]) auto

lemma rewardsGrow_sqrtPrice [simp]:
  "rewardsGrow pool (pool' \<lparr> sqrtPrice := s \<rparr>) = rewardsGrow pool pool'"
  by (simp add: rewardsGrow_def)

lemma wellFormed_alt:
  "wellFormed pool \<longleftrightarrow>
     0 \<le> feeRate pool \<and> feeRate pool < 1
     \<and> list_all (\<lambda>l. 0 \<le> l) (map (liquidity \<circ> snd) (positions pool))
     \<and> list_all (\<lambda>r. 0 \<le> fst r) (map (sqrtRange \<circ> snd) (positions pool))"
proof -
  have "list_all (\<lambda>q. 0 \<le> liquidity q \<and> 0 \<le> fst (sqrtRange q)) (map snd ps) \<longleftrightarrow>
          list_all (\<lambda>l. 0 \<le> l) (map (liquidity \<circ> snd) ps)
          \<and> list_all (\<lambda>r. 0 \<le> fst r) (map (sqrtRange \<circ> snd) ps)"
    for ps :: "(string \<times> Position) list"
    by (induction ps) auto
  then show ?thesis by (simp add: wellFormed_def)
qed

lemma wellFormed_step:
  assumes "wellFormed pool"
    and "map (sqrtRange \<circ> snd) (positions pool') = map (sqrtRange \<circ> snd) (positions pool)"
    and "map (liquidity \<circ> snd) (positions pool') = map (liquidity \<circ> snd) (positions pool)"
    and "feeRate pool' = feeRate pool"
  shows "wellFormed pool'"
  using assms(1) unfolding wellFormed_alt assms(2,3,4) .

lemma addFees_rewardsGrow:
  assumes "\<And>q. q \<in> snd ` set (positions pool) \<Longrightarrow> 0 \<le> liquidity q / L * F"
  shows "rewardsGrow pool (addFeesToPositions pool F L tok d)"
proof -
  have "list_all2 (\<lambda>(i, q) (i', q'). i = i'
                  \<and> amount_x (rewards q) \<le> amount_x (rewards q')
                  \<and> amount_y (rewards q) \<le> amount_y (rewards q'))
          ps (map (\<lambda>(i, q). (i, if inRange d (sqrtPrice pool) q
                         then addReward tok (liquidity q / L * F) q else q)) ps)"
    if "\<And>q. q \<in> snd ` set ps \<Longrightarrow> 0 \<le> liquidity q / L * F"
    for ps :: "(string \<times> Position) list"
    using that
    by (induction ps) (auto simp: addReward_def)
  from this [of "positions pool"] assms show ?thesis
    by (simp add: rewardsGrow_def addFees_positions)
qed

lemma wellFormed_liquidity:
  assumes "wellFormed pool"
  shows "0 \<le> getLiquidityInCurrentRange pool d"
    and "q \<in> snd ` set (positions pool) \<Longrightarrow> 0 \<le> liquidity q"
    and "q \<in> snd ` set (positions pool) \<Longrightarrow> 0 \<le> fst (sqrtRange q)"
proof -
  have all: "\<And>q. q \<in> snd ` set (positions pool) \<Longrightarrow> 0 \<le> liquidity q \<and> 0 \<le> fst (sqrtRange q)"
    using assms by (auto simp: wellFormed_def list_all_iff)
  show "q \<in> snd ` set (positions pool) \<Longrightarrow> 0 \<le> liquidity q"
    and "q \<in> snd ` set (positions pool) \<Longrightarrow> 0 \<le> fst (sqrtRange q)"
    using all by blast+
  have "\<And>q. q \<in> set (getPositionsInRange pool d) \<Longrightarrow> 0 \<le> liquidity q"
    using all by (auto simp: getPositionsInRange_def)
  then show "0 \<le> getLiquidityInCurrentRange pool d"
    unfolding getLiquidityInCurrentRange_sum by (intro sum_list_nonneg) auto
qed

lemma addFees_grow_wellFormed:
  assumes wf: "wellFormed pool" and L: "0 < L" and F: "0 \<le> F"
  shows "rewardsGrow pool (addFeesToPositions pool F L tok d)"
proof (rule addFees_rewardsGrow)
  fix q assume "q \<in> snd ` set (positions pool)"
  then have "0 \<le> liquidity q" by (rule wellFormed_liquidity(2) [OF wf])
  then show "0 \<le> liquidity q / L * F" using L F by simp
qed

lemma getCurrentRange_lower:
  assumes wf: "wellFormed pool" and r: "getCurrentRange pool d = Inr r"
  shows "0 \<le> fst r"
proof -
  let ?ps = "getPositionsInRange pool d"
  from r have ne: "?ps \<noteq> []" and fr: "fst r = Max ((fst \<circ> sqrtRange) ` set ?ps)"
    by (auto simp: getCurrentRange_eq split: if_splits)
  have "fst r \<in> (fst \<circ> sqrtRange) ` set ?ps"
    unfolding fr using ne by (intro Max_in) auto
  then obtain q where "q \<in> set ?ps" "fst r = fst (sqrtRange q)" by auto
  then show ?thesis
    using wellFormed_liquidity(3) [OF wf, of q] by (auto simp: getPositionsInRange_def)
qed

lemma getCurrentRange_bounds:
  assumes r: "getCurrentRange pool d = Inr r"
  shows "d = UP \<Longrightarrow> sqrtPrice pool < snd r" and "d = DOWN \<Longrightarrow> fst r < sqrtPrice pool"
proof -
  let ?ps = "getPositionsInRange pool d"
  from r have ne: "?ps \<noteq> []" and fr: "fst r = Max ((fst \<circ> sqrtRange) ` set ?ps)"
    and sr: "snd r = Min ((snd \<circ> sqrtRange) ` set ?ps)"
    by (auto simp: getCurrentRange_eq split: if_splits)
  have "fst r \<in> (fst \<circ> sqrtRange) ` set ?ps"
    unfolding fr using ne by (intro Max_in) auto
  then obtain q where q: "q \<in> set ?ps" "fst r = fst (sqrtRange q)" by auto
  have "snd r \<in> (snd \<circ> sqrtRange) ` set ?ps"
    unfolding sr using ne by (intro Min_in) auto
  then obtain q' where q': "q' \<in> set ?ps" "snd r = snd (sqrtRange q')" by auto
  show "d = UP \<Longrightarrow> sqrtPrice pool < snd r"
    using q' by (auto simp: getPositionsInRange_def inRange_def)
  show "d = DOWN \<Longrightarrow> fst r < sqrtPrice pool"
    using q by (auto simp: getPositionsInRange_def inRange_def)
qed

lemma rewardsGrow_positions:
  "positions pool' = positions pool'' \<Longrightarrow> rewardsGrow pool pool' = rewardsGrow pool pool''"
  by (simp add: rewardsGrow_def)

lemma wellFormed_pos_liquidity:
  assumes "wellFormed pool" and "getLiquidityInCurrentRange pool d \<noteq> 0"
  shows "0 < getLiquidityInCurrentRange pool d"
  using wellFormed_liquidity(1) [OF assms(1), of d] assms(2) by simp

lemma fee_factor_nonneg:
  fixes f :: real
  assumes "0 \<le> f" "f < 1"
  shows "0 \<le> 1 / (1 - f) - 1"
proof -
  have "1 \<le> 1 / (1 - f)" using assms by (simp add: pos_le_divide_eq)
  then show ?thesis by simp
qed

lemma getDInv_pos:
  assumes "0 < sqrtPrice pool" and "ds < 0" and "0 \<le> sqrtPrice pool + ds"
    and "sqrtPrice pool ^ 2 + sqrtPrice pool * ds \<noteq> 0"
  shows "0 < getDInvSqrtPrice pool ds"
proof -
  let ?p = "sqrtPrice pool"
  have den: "?p ^ 2 + ?p * ds = ?p * (?p + ds)"
    by (simp add: power2_eq_square algebra_simps)
  have "?p + ds \<noteq> 0" using assms(4) den by auto
  then have "0 < ?p + ds" using assms(3) by simp
  then have "0 < ?p * (?p + ds)" using assms(1) by simp
  then have "0 < ?p ^ 2 + ?p * ds" by (simp only: den)
  moreover have "0 < - ds" using assms(2) by simp
  ultimately show ?thesis
    unfolding getDInvSqrtPrice_def by (rule divide_pos_pos [rotated])
qed

lemma sellY_segment_grow:
  assumes wf: "wellFormed pool" and fees: "0 \<le> fees" and dY: "0 < dY"
    and seg: "sellY_segment fees pool dX dY = Inr (pool', dX', dY')"
  shows "rewardsGrow pool pool'" and "wellFormed pool'"
proof -
  let ?l = "getLiquidityInCurrentRange pool UP"
  from seg obtain r where r: "getCurrentRange pool UP = Inr r"
    and l: "?l \<noteq> 0"
    and ps: "positions pool' = positions (addFeesToPositions pool
            ((fees * (min (dY / ?l) (snd r - sqrtPrice pool) * ?l)) / dY) ?l TokenY UP)"
    and fr: "feeRate pool' = feeRate pool"
    by (rule sellY_segment_Inr)
  have lp: "0 < ?l" by (rule wellFormed_pos_liquidity [OF wf l])
  have "0 < snd r - sqrtPrice pool" using getCurrentRange_bounds(1) [OF r] by simp
  moreover have "0 < dY / ?l" using dY lp by simp
  ultimately have "0 < min (dY / ?l) (snd r - sqrtPrice pool)" by simp
  then have "0 \<le> fees * (min (dY / ?l) (snd r - sqrtPrice pool) * ?l) / dY"
    using fees lp dY by simp
  from addFees_grow_wellFormed [OF wf lp this]
  show "rewardsGrow pool pool'"
    by (simp add: rewardsGrow_positions [OF ps])
  show "wellFormed pool'"
    by (rule wellFormed_step [OF wf]) (simp_all add: ps fr)
qed

lemma down_step_facts:
  assumes wf: "wellFormed pool" and r: "getCurrentRange pool DOWN = Inr r"
    and ds: "fst r - sqrtPrice pool \<le> ds" "ds < 0"
    and nz: "sqrtPrice pool ^ 2 + sqrtPrice pool * ds \<noteq> 0"
  shows "0 < getDInvSqrtPrice pool ds"
proof -
  have lo: "0 \<le> fst r" by (rule getCurrentRange_lower [OF wf r])
  have "fst r < sqrtPrice pool" using getCurrentRange_bounds(2) [OF r] by simp
  then have p: "0 < sqrtPrice pool" using lo by simp
  have "0 \<le> sqrtPrice pool + ds" using ds(1) lo by simp
  from getDInv_pos [OF p ds(2) this nz] show ?thesis .
qed

lemma buyY_segment_grow:
  assumes wf: "wellFormed pool" and dY: "dY < 0"
    and seg: "buyY_segment pool dX dY = Inr (pool', dX', dY')"
  shows "rewardsGrow pool pool'" and "wellFormed pool'"
proof -
  from seg obtain r l ds where r: "getCurrentRange pool DOWN = Inr r"
    and l: "l = getLiquidityInCurrentRange pool DOWN" "l \<noteq> 0"
    and ds: "ds = max (dY / l) (fst r - sqrtPrice pool)"
    and nz: "sqrtPrice pool ^ 2 + sqrtPrice pool * ds \<noteq> 0"
    and ps: "positions pool' = positions (addFeesToPositions pool
            (l * getDInvSqrtPrice pool ds / (1 - feeRate pool) - l * getDInvSqrtPrice pool ds) l TokenX DOWN)"
    and fr: "feeRate pool' = feeRate pool"
    by (rule buyY_segment_Inr)
  have lp: "0 < l" using wellFormed_pos_liquidity [OF wf, of DOWN] l by simp
  have "fst r - sqrtPrice pool < 0" using getCurrentRange_bounds(2) [OF r] by simp
  moreover have "dY / l < 0" using dY lp by (simp add: divide_neg_pos)
  ultimately have neg: "ds < 0" and ge: "fst r - sqrtPrice pool \<le> ds" using ds by simp_all
  have inv: "0 < getDInvSqrtPrice pool ds" by (rule down_step_facts [OF wf r ge neg nz])
  have f: "0 \<le> feeRate pool" "feeRate pool < 1" using wf by (simp_all add: wellFormed_def)
  have "l * getDInvSqrtPrice pool ds / (1 - feeRate pool) - l * getDInvSqrtPrice pool ds
          = (l * getDInvSqrtPrice pool ds) * (1 / (1 - feeRate pool) - 1)"
    by (simp add: algebra_simps)
  moreover have "0 \<le> (l * getDInvSqrtPrice pool ds) * (1 / (1 - feeRate pool) - 1)"
    using lp inv fee_factor_nonneg [OF f] by (intro mult_nonneg_nonneg) simp_all
  ultimately have "0 \<le> l * getDInvSqrtPrice pool ds / (1 - feeRate pool)
                         - l * getDInvSqrtPrice pool ds" by simp
  from addFees_grow_wellFormed [OF wf lp this]
  show "rewardsGrow pool pool'" by (simp add: rewardsGrow_positions [OF ps])
  show "wellFormed pool'"
    by (rule wellFormed_step [OF wf]) (simp_all add: ps fr)
qed

lemma sellX_segment_grow:
  assumes wf: "wellFormed pool" and fees: "0 \<le> fees" and dX: "0 < dX"
    and seg: "sellX_segment fees pool dX dY = Inr (pool', dX', dY')"
  shows "rewardsGrow pool pool'" and "wellFormed pool'"
proof -
  from seg obtain r l ds where r: "getCurrentRange pool DOWN = Inr r"
    and l: "l = getLiquidityInCurrentRange pool DOWN" "l \<noteq> 0"
    and ds0: "ds = (if 1 + dX / l * sqrtPrice pool = 0 then fst r - sqrtPrice pool
                    else max (getDSqrtPrice pool (dX / l)) (fst r - sqrtPrice pool))"
    and nz: "sqrtPrice pool ^ 2 + sqrtPrice pool * ds \<noteq> 0"
    and ps: "positions pool' = positions (addFeesToPositions pool
            ((fees * (l * getDInvSqrtPrice pool ds)) / dX) l TokenX DOWN)"
    and fr: "feeRate pool' = feeRate pool"
    by (rule sellX_segment_Inr)
  have lp: "0 < l" using wellFormed_pos_liquidity [OF wf, of DOWN] l by simp
  have lo: "0 \<le> fst r" by (rule getCurrentRange_lower [OF wf r])
  have lt: "fst r < sqrtPrice pool" using getCurrentRange_bounds(2) [OF r] by simp
  then have p: "0 < sqrtPrice pool" using lo by simp
  have d: "0 < dX / l" using dX lp by simp
  have "0 < dX / l * sqrtPrice pool" using d p by (rule mult_pos_pos)
  then have den: "0 < 1 + dX / l * sqrtPrice pool" by (rule add_pos_pos [OF zero_less_one])
  then have ds: "ds = max (getDSqrtPrice pool (dX / l)) (fst r - sqrtPrice pool)"
    using ds0 by simp
  from den have "0 < sqrtPrice pool ^ 2 / (1 + dX / l * sqrtPrice pool)" using p by simp
  then have "0 < dX / l * (sqrtPrice pool ^ 2 / (1 + dX / l * sqrtPrice pool))"
    using d by (rule mult_pos_pos [rotated])
  then have "getDSqrtPrice pool (dX / l) < 0" by (simp add: getDSqrtPrice_def)
  then have neg: "ds < 0" and ge: "fst r - sqrtPrice pool \<le> ds" using ds lt by simp_all
  have inv: "0 < getDInvSqrtPrice pool ds" by (rule down_step_facts [OF wf r ge neg nz])
  have "0 \<le> fees * (l * getDInvSqrtPrice pool ds) / dX"
    using fees lp inv dX by simp
  from addFees_grow_wellFormed [OF wf lp this]
  show "rewardsGrow pool pool'" by (simp add: rewardsGrow_positions [OF ps])
  show "wellFormed pool'"
    by (rule wellFormed_step [OF wf]) (simp_all add: ps fr)
qed

lemma movePrice_segment_Inr_fees:
  assumes "movePrice_segment t pool dX dY = Inr (pool', dX', dY')"
  obtains r l nxt dir where "dir = (if t - sqrtPrice pool < 0 then DOWN else UP)"
    and "getCurrentRange pool dir = Inr r"
    and "l = getLiquidityInCurrentRange pool dir" and "l \<noteq> 0"
    and "nxt = (if t - sqrtPrice pool > 0 then min (snd r) t else max (fst r) t)"
    and "sqrtPrice pool ^ 2 + sqrtPrice pool * (nxt - sqrtPrice pool) \<noteq> 0"
    and "positions pool' = positions (addFeesToPositions pool
           ((if t - sqrtPrice pool > 0 then l * (nxt - sqrtPrice pool)
             else l * getDInvSqrtPrice pool (nxt - sqrtPrice pool))
              * (1 / (1 - feeRate pool) - 1))
           l (if t - sqrtPrice pool > 0 then TokenY else TokenX) dir)"
    and "feeRate pool' = feeRate pool"
  using assms unfolding movePrice_segment_def
  by (auto simp: Let_def split: sum.splits if_splits)

lemma movePrice_segment_grow:
  assumes wf: "wellFormed pool" and ne: "t - sqrtPrice pool \<noteq> 0"
    and seg: "movePrice_segment t pool dX dY = Inr (pool', dX', dY')"
  shows "rewardsGrow pool pool'" and "wellFormed pool'"
proof -
  from seg obtain r l nxt dir where dir: "dir = (if t - sqrtPrice pool < 0 then DOWN else UP)"
    and r: "getCurrentRange pool dir = Inr r"
    and l: "l = getLiquidityInCurrentRange pool dir" "l \<noteq> 0"
    and nxt: "nxt = (if t - sqrtPrice pool > 0 then min (snd r) t else max (fst r) t)"
    and nz: "sqrtPrice pool ^ 2 + sqrtPrice pool * (nxt - sqrtPrice pool) \<noteq> 0"
    and ps: "positions pool' = positions (addFeesToPositions pool
           ((if t - sqrtPrice pool > 0 then l * (nxt - sqrtPrice pool)
             else l * getDInvSqrtPrice pool (nxt - sqrtPrice pool))
              * (1 / (1 - feeRate pool) - 1))
           l (if t - sqrtPrice pool > 0 then TokenY else TokenX) dir)"
    and fr: "feeRate pool' = feeRate pool"
    by (rule movePrice_segment_Inr_fees)
  have lp: "0 < l" using wellFormed_pos_liquidity [OF wf, of dir] l by simp
  have f: "0 \<le> feeRate pool" "feeRate pool < 1" using wf by (simp_all add: wellFormed_def)
  have leg: "0 \<le> (if t - sqrtPrice pool > 0 then l * (nxt - sqrtPrice pool)
             else l * getDInvSqrtPrice pool (nxt - sqrtPrice pool))"
  proof (cases "t - sqrtPrice pool > 0")
    case True
    then have "dir = UP" using dir by simp
    with r have "sqrtPrice pool < snd r" using getCurrentRange_bounds(1) by simp
    then have "0 < nxt - sqrtPrice pool" using True nxt by simp
    then show ?thesis using True lp by simp
  next
    case False
    with ne have down: "t - sqrtPrice pool < 0" by simp
    then have d: "dir = DOWN" using dir by simp
    with r have r': "getCurrentRange pool DOWN = Inr r" by simp
    have lt: "fst r < sqrtPrice pool" using getCurrentRange_bounds(2) [OF r'] by simp
    have n: "nxt = max (fst r) t" using nxt False by simp
    have neg: "nxt - sqrtPrice pool < 0" using n lt down by simp
    have ge: "fst r - sqrtPrice pool \<le> nxt - sqrtPrice pool" using n by simp
    from down_step_facts [OF wf r' ge neg nz]
    show ?thesis using False lp by simp
  qed
  have "0 \<le> (if t - sqrtPrice pool > 0 then l * (nxt - sqrtPrice pool)
             else l * getDInvSqrtPrice pool (nxt - sqrtPrice pool))
              * (1 / (1 - feeRate pool) - 1)"
    using leg fee_factor_nonneg [OF f] by (rule mult_nonneg_nonneg)
  from addFees_grow_wellFormed [OF wf lp this]
  show "rewardsGrow pool pool'" by (simp add: rewardsGrow_positions [OF ps])
  show "wellFormed pool'"
    by (rule wellFormed_step [OF wf]) (simp_all add: ps fr)
qed

lemma sellY_loop_grow:
  "wellFormed pool \<Longrightarrow> 0 \<le> fees \<Longrightarrow> rewardsGrow pool (snd (sellY_loop fees pool dX dY))"
proof (induction fees pool dX dY rule: sellY_loop.induct)
  case (1 fees pool dX dY)
  show ?case
  proof (cases "0 < dY")
    case False
    then show ?thesis by (subst sellY_loop.simps) (simp add: rewardsGrow_refl)
  next
    case True
    show ?thesis
    proof (cases "sellY_segment fees pool dX dY")
      case (Inl e)
      then show ?thesis using True by (subst sellY_loop.simps) (simp add: rewardsGrow_refl)
    next
      case (Inr s)
      obtain pool' dX' dY' where s: "s = (pool', dX', dY')" by (cases s) auto
      have seg: "sellY_segment fees pool dX dY = Inr (pool', dX', dY')" using Inr s by simp
      note g = sellY_segment_grow [OF "1.prems"(1,2) True seg]
      have "rewardsGrow pool' (snd (sellY_loop fees pool' dX' dY'))"
        by (rule "1.IH" [OF True Inr s [symmetric] refl g(2) "1.prems"(2)])
      from rewardsGrow_trans [OF g(1) this] show ?thesis
        using True seg by (subst sellY_loop.simps) simp
    qed
  qed
qed

lemma sellX_loop_grow:
  "wellFormed pool \<Longrightarrow> 0 \<le> fees \<Longrightarrow> rewardsGrow pool (snd (sellX_loop fees pool dX dY))"
proof (induction fees pool dX dY rule: sellX_loop.induct)
  case (1 fees pool dX dY)
  show ?case
  proof (cases "0 < dX")
    case False
    then show ?thesis by (subst sellX_loop.simps) (simp add: rewardsGrow_refl)
  next
    case True
    show ?thesis
    proof (cases "sellX_segment fees pool dX dY")
      case (Inl e)
      then show ?thesis using True by (subst sellX_loop.simps) (simp add: rewardsGrow_refl)
    next
      case (Inr s)
      obtain pool' dX' dY' where s: "s = (pool', dX', dY')" by (cases s) auto
      have seg: "sellX_segment fees pool dX dY = Inr (pool', dX', dY')" using Inr s by simp
      note g = sellX_segment_grow [OF "1.prems"(1,2) True seg]
      have "rewardsGrow pool' (snd (sellX_loop fees pool' dX' dY'))"
        by (rule "1.IH" [OF True Inr s [symmetric] refl g(2) "1.prems"(2)])
      from rewardsGrow_trans [OF g(1) this] show ?thesis
        using True seg by (subst sellX_loop.simps) simp
    qed
  qed
qed

lemma buyY_loop_grow:
  "wellFormed pool \<Longrightarrow> rewardsGrow pool (snd (buyY_loop pool dX dY))"
proof (induction pool dX dY rule: buyY_loop.induct)
  case (1 pool dX dY)
  show ?case
  proof (cases "dY < 0")
    case False
    then show ?thesis by (subst buyY_loop.simps) (simp add: rewardsGrow_refl)
  next
    case True
    show ?thesis
    proof (cases "buyY_segment pool dX dY")
      case (Inl e)
      then show ?thesis using True by (subst buyY_loop.simps) (simp add: rewardsGrow_refl)
    next
      case (Inr s)
      obtain pool' dX' dY' where s: "s = (pool', dX', dY')" by (cases s) auto
      have seg: "buyY_segment pool dX dY = Inr (pool', dX', dY')" using Inr s by simp
      note g = buyY_segment_grow [OF "1.prems"(1) True seg]
      have "rewardsGrow pool' (snd (buyY_loop pool' dX' dY'))"
        by (rule "1.IH" [OF True Inr s [symmetric] refl g(2)])
      from rewardsGrow_trans [OF g(1) this] show ?thesis
        using True seg by (subst buyY_loop.simps) simp
    qed
  qed
qed

lemma movePrice_loop_grow:
  "wellFormed pool \<Longrightarrow> rewardsGrow pool (snd (movePrice_loop t pool dX dY))"
proof (induction t pool dX dY rule: movePrice_loop.induct)
  case (1 t pool dX dY)
  show ?case
  proof (cases "t - sqrtPrice pool \<noteq> 0")
    case False
    then show ?thesis by (subst movePrice_loop.simps) (simp add: rewardsGrow_refl)
  next
    case True
    show ?thesis
    proof (cases "movePrice_segment t pool dX dY")
      case (Inl e)
      then show ?thesis using True by (subst movePrice_loop.simps) (simp add: rewardsGrow_refl)
    next
      case (Inr s)
      obtain pool' dX' dY' where s: "s = (pool', dX', dY')" by (cases s) auto
      have seg: "movePrice_segment t pool dX dY = Inr (pool', dX', dY')" using Inr s by simp
      note g = movePrice_segment_grow [OF "1.prems"(1) True seg]
      have "rewardsGrow pool' (snd (movePrice_loop t pool' dX' dY'))"
        by (rule "1.IH" [OF True Inr s [symmetric] refl g(2)])
      from rewardsGrow_trans [OF g(1) this] show ?thesis
        using True seg by (subst movePrice_loop.simps) simp
    qed
  qed
qed

lemma rewards_grow_except_buyX:
  assumes "wellFormed pool"
  shows "rewardsGrow pool (snd (sellY pool a))"
    and "rewardsGrow pool (snd (sellX pool a))"
    and "rewardsGrow pool (snd (buyY pool a))"
    and "rewardsGrow pool (snd (movePrice pool a))"
proof -
  have f: "0 \<le> feeRate pool" using assms by (simp add: wellFormed_def)
  show "rewardsGrow pool (snd (sellY pool a))"
  proof (cases "a \<le> 0")
    case True
    then show ?thesis by (simp add: sellY_def rewardsGrow_refl)
  next
    case False
    then have "0 \<le> a * feeRate pool" using f by simp
    from sellY_loop_grow [OF assms this] False show ?thesis by (simp add: sellY_def Let_def)
  qed
  show "rewardsGrow pool (snd (sellX pool a))"
  proof (cases "a \<le> 0")
    case True
    then show ?thesis by (simp add: sellX_def rewardsGrow_refl)
  next
    case False
    then have "0 \<le> a * feeRate pool" using f by simp
    from sellX_loop_grow [OF assms this] False show ?thesis by (simp add: sellX_def Let_def)
  qed
  show "rewardsGrow pool (snd (buyY pool a))"
    using buyY_loop_grow [OF assms] by (simp add: buyY_def rewardsGrow_refl)
  show "rewardsGrow pool (snd (movePrice pool a))"
    using movePrice_loop_grow [OF assms] by (simp add: movePrice_def Let_def rewardsGrow_refl)
qed

text \<open>
  C9, at a purchase of more X than the liquidity in range can give at any price. On
  \<open>wideRangePool\<close> (fee rate 1/2, one position of liquidity 1 with rewards zero, sqrt-price
  1), \<^verbatim>\<open>buyX(2)\<close> completes and returns \<open>- 4\<close>; the position's reward in Y goes from
  0 down to \<open>- 2\<close>, and the pool's sqrt-price becomes \<open>- 1\<close>.
\<close>

theorem buyX_beyond_reserve_lowers_rewards:
  "0 \<le> feeRate wideRangePool \<and> feeRate wideRangePool < 1
   \<and> map (\<lambda>(i, q). (i, liquidity q, rewards q)) (positions wideRangePool)
       = [(''a'', 1, \<lparr> amount_x = 0, amount_y = 0 \<rparr>)]
   \<and> fst (buyX wideRangePool 2) = Inr (- 4)
   \<and> map (\<lambda>(i, q). (i, rewards q)) (positions (snd (buyX wideRangePool 2)))
       = [(''a'', \<lparr> amount_x = 0, amount_y = - 2 \<rparr>)]
   \<and> sqrtPrice (snd (buyX wideRangePool 2)) = - 1"
proof -
  have "buyX wideRangePool 2 = buyX_loop wideRangePool (- 2) 0"
    by (simp add: buyX_def)
  also have "\<dots> = buyX_loop \<lparr> positions =
         [(''a'', \<lparr> id_pos = ''a'', sqrtRange = (1 / 2, 2), liquidity = 1,
                   initialBalance = \<lparr> amount_x = 1 / 2, amount_y = 1 / 2 \<rparr>,
                   rewards = \<lparr> amount_x = 0, amount_y = - 2 \<rparr> \<rparr>)],
       sqrtPrice = - 1, feeRate = 1 / 2 \<rparr> 0 (- 4)"
    by (subst buyX_loop.simps) (simp add: wideRangePool_segment)
  also have "\<dots> = (Inr (- 4), \<lparr> positions =
         [(''a'', \<lparr> id_pos = ''a'', sqrtRange = (1 / 2, 2), liquidity = 1,
                   initialBalance = \<lparr> amount_x = 1 / 2, amount_y = 1 / 2 \<rparr>,
                   rewards = \<lparr> amount_x = 0, amount_y = - 2 \<rparr> \<rparr>)],
       sqrtPrice = - 1, feeRate = 1 / 2 \<rparr>)"
    by (subst buyX_loop.simps) simp
  finally show ?thesis by (simp add: wideRangePool_eq)
qed

subsection \<open>A purchase that the only position cannot fill\<close>

text \<open>One position, and a buy that its range cannot fill.\<close>

lemma single_getCurrentRange:
  assumes "positions pool = [(i, q)]"
  shows "getCurrentRange pool d =
           (if inRange d (sqrtPrice pool) q then Inr (sqrtRange q) else Inl OutOfRange)"
    and "getLiquidityInCurrentRange pool d =
           (if inRange d (sqrtPrice pool) q then liquidity q else 0)"
  by (simp_all add: getCurrentRange_def getLiquidityInCurrentRange_def
        getPositionsInRange_def narrow_def assms)

lemma buyY_single_past_bound:
  assumes ps: "positions pool = [(i, q)]" and sr: "sqrtRange q = (lo, hi)"
    and L: "0 < liquidity q" and lo: "0 < lo" "lo < sqrtPrice pool" and hi: "sqrtPrice pool \<le> hi"
    and fr: "feeRate pool \<noteq> 1" and y: "liquidity q * (sqrtPrice pool - lo) < y"
  shows "\<exists>pool'. buyY pool y = (Inl OutOfRange, pool') \<and> sqrtPrice pool' = lo
            \<and> map fst (positions pool') = [i]"
proof -
  let ?L = "liquidity q" and ?p = "sqrtPrice pool"
  have y0: "0 < y"
  proof -
    have "0 < ?L * (?p - lo)" using L lo by simp
    with y show ?thesis by simp
  qed
  have inr: "inRange DOWN ?p q" using lo hi by (simp add: inRange_def sr)
  have "- y / ?L < lo - ?p"
  proof -
    have "?p - lo < y / ?L" using y L by (simp add: pos_less_divide_eq mult.commute)
    then show ?thesis by simp
  qed
  then have m: "max (- (y / ?L)) (lo - ?p) = lo - ?p" by simp
  have nz: "?p ^ 2 + ?p * (lo - ?p) \<noteq> 0"
  proof -
    have "?p ^ 2 + ?p * (lo - ?p) = ?p * lo" by (simp add: power2_eq_square algebra_simps)
    then show ?thesis using lo by simp
  qed
  define f where "f = ?L * getDInvSqrtPrice pool (lo - ?p) / (1 - feeRate pool)
                        - ?L * getDInvSqrtPrice pool (lo - ?p)"
  define pool1 where "pool1 = (addFeesToPositions pool f ?L TokenX DOWN) \<lparr> sqrtPrice := lo \<rparr>"
  define dX1 where "dX1 = ?L * getDInvSqrtPrice pool (lo - ?p) + f"
  have seg: "buyY_segment pool 0 (- y) = Inr (pool1, dX1, - y - (lo - ?p) * ?L)"
    using L fr nz inr
    by (simp add: buyY_segment_def single_getCurrentRange [OF ps] sr m Let_def
          pool1_def dX1_def f_def)
  have rest: "- y - (lo - ?p) * ?L < 0" using y by (simp add: algebra_simps)
  have ps1: "positions pool1 = [(i, if inRange DOWN ?p q
               then addReward TokenX (?L / ?L * f) q else q)]"
    by (simp add: pool1_def addFeesToPositions_def ps)
  have sp1: "sqrtPrice pool1 = lo" by (simp add: pool1_def)
  have out: "buyY_segment pool1 dX1 (- y - (lo - ?p) * ?L) = Inl OutOfRange"
    by (simp add: buyY_segment_def single_getCurrentRange(1) [OF ps1] sp1 inRange_def sr inr)
  have "buyY pool y = buyY_loop pool 0 (- y)" using y0 by (simp add: buyY_def)
  also have "\<dots> = buyY_loop pool1 dX1 (- y - (lo - ?p) * ?L)"
    using y0 by (subst buyY_loop.simps) (simp add: seg)
  also have "\<dots> = (Inl OutOfRange, pool1)"
    using rest by (subst buyY_loop.simps) (simp add: out)
  finally show ?thesis using sp1 ps1 by simp
qed

lemma buyX_step_beyond_bound:
  fixes p hi L x :: real
  assumes "0 < p" "p < hi" "0 < L" "L * (1 / p - 1 / hi) < x" "x < L / p"
  shows "1 + (- (x / L)) * p \<noteq> 0"
    and "hi - p < - (- (x / L)) * (p ^ 2 / (1 + (- (x / L)) * p))"
proof -
  define k where "k = 1 - x * p / L"
  have xp: "x * p < L" using assms(1,5) by (simp add: pos_less_divide_eq)
  have k: "0 < k" using xp assms(3) by (simp add: k_def)
  have k': "1 + (- (x / L)) * p = k" by (simp add: k_def)
  show "1 + (- (x / L)) * p \<noteq> 0" using k k' by simp
  have hi: "0 < hi" using assms(1,2) by simp
  have "L * (hi - p) < x * (p * hi)"
  proof -
    have "L * (1 / p - 1 / hi) = L * (hi - p) / (p * hi)"
      using assms(1) hi by (simp add: field_simps)
    then have "L * (hi - p) / (p * hi) < x" using assms(4) by simp
    then show ?thesis using assms(1) hi by (simp add: pos_divide_less_eq)
  qed
  then have "(hi - p) * L - hi * x * p < 0" by (simp add: algebra_simps)
  then have "((hi - p) * L - hi * x * p) / L < 0" using assms(3) by (simp add: divide_neg_pos)
  moreover have "(hi - p) * k = ((hi - p) * L - hi * x * p) / L + x / L * p ^ 2"
    using assms(3) by (simp add: k_def field_simps power2_eq_square)
  ultimately have "(hi - p) * k < x / L * p ^ 2" by simp
  then have "hi - p < (x / L * p ^ 2) / k"
    using k pos_less_divide_eq [of k "hi - p" "x / L * p ^ 2"] by blast
  moreover have "- (- (x / L)) * (p ^ 2 / k) = (x / L * p ^ 2) / k" by simp
  ultimately show "hi - p < - (- (x / L)) * (p ^ 2 / (1 + (- (x / L)) * p))"
    unfolding k' by (simp only:)
qed

lemma buyX_single_past_bound:
  assumes ps: "positions pool = [(i, q)]" and sr: "sqrtRange q = (lo, hi)"
    and L: "0 < liquidity q" and p: "0 < sqrtPrice pool"
    and lo: "lo \<le> sqrtPrice pool" and hi: "sqrtPrice pool < hi"
    and fr: "feeRate pool \<noteq> 1"
    and x: "liquidity q * (1 / sqrtPrice pool - 1 / hi) < x" "x \<le> liquidity q / sqrtPrice pool"
  shows "\<exists>pool'. buyX pool x = (Inl OutOfRange, pool') \<and> sqrtPrice pool' = hi
            \<and> map fst (positions pool') = [i]"
proof -
  let ?L = "liquidity q" and ?p = "sqrtPrice pool"
  have x0: "0 < x"
  proof -
    have "1 / hi < 1 / ?p" using p hi by (simp add: frac_less2)
    then have "0 < ?L * (1 / ?p - 1 / hi)" using L by simp
    with x(1) show ?thesis by simp
  qed
  have inr: "inRange UP ?p q" using lo hi by (simp add: inRange_def sr)
  have r: "getCurrentRange pool UP = Inr (lo, hi)"
    and l: "getLiquidityInCurrentRange pool UP = ?L"
    using single_getCurrentRange [OF ps, of UP] inr sr by simp_all
  have "0 < x / ?L" using x0 L by (rule divide_pos_pos)
  then have neg: "\<not> 0 < - x / ?L" by simp
  then have ng: "\<not> (1 + - x / ?L * ?p = 0 \<and> 0 < - x / ?L)" by simp
  have step: "(if 1 + - x / ?L * ?p = 0 then snd (lo, hi) - ?p
               else min (getDSqrtPrice pool (- x / ?L)) (snd (lo, hi) - ?p)) = hi - ?p"
  proof (cases "x < ?L / ?p")
    case True
    note b = buyX_step_beyond_bound [OF p hi L x(1) True]
    have "min (getDSqrtPrice pool (- (x / ?L))) (hi - ?p) = hi - ?p"
      using b(2) by (simp add: getDSqrtPrice_def)
    then show ?thesis using b(1) by simp
  next
    case False
    with x(2) have "x = ?L / ?p" by simp
    then have pole: "1 + - x / ?L * ?p = 0" using L p by simp
    show ?thesis by (simp only: pole if_True snd_conv simp_thms)
  qed
  have nz: "?p ^ 2 + ?p * (hi - ?p) \<noteq> 0"
  proof -
    have "?p ^ 2 + ?p * (hi - ?p) = ?p * hi" by (simp add: power2_eq_square algebra_simps)
    then show ?thesis using p hi by simp
  qed
  define f where "f = (hi - ?p) * ?L / (1 - feeRate pool) - (hi - ?p) * ?L"
  define pool1 where "pool1 = (addFeesToPositions pool f ?L TokenY UP) \<lparr> sqrtPrice := hi \<rparr>"
  define dX1 where "dX1 = - x - ?L * getDInvSqrtPrice pool (hi - ?p)"
  have L0: "?L \<noteq> 0" using L by simp
  have seg: "buyX_segment pool (- x) 0 = Inr (pool1, dX1, (hi - ?p) * ?L + f)"
    unfolding buyX_segment_eq [OF r l L0 ng step nz fr]
    by (simp add: pool1_def dX1_def f_def)
  have rest: "dX1 < 0"
  proof -
    have "getDInvSqrtPrice pool (hi - ?p) = - (hi - ?p) / (?p * hi)"
      by (simp add: getDInvSqrtPrice_def power2_eq_square algebra_simps)
    also have "\<dots> = - (1 / ?p - 1 / hi)" using p hi by (simp add: field_simps)
    finally have "dX1 = - x + ?L * (1 / ?p - 1 / hi)"
      unfolding dX1_def by (simp only:)
    then show ?thesis using x(1) by simp
  qed
  have ps1: "positions pool1 = [(i, if inRange UP ?p q
               then addReward TokenY (?L / ?L * f) q else q)]"
    by (simp add: pool1_def addFeesToPositions_def ps)
  have sp1: "sqrtPrice pool1 = hi" by (simp add: pool1_def)
  have out: "buyX_segment pool1 dX1 ((hi - ?p) * ?L + f) = Inl OutOfRange"
    by (simp add: buyX_segment_def single_getCurrentRange(1) [OF ps1] sp1 inRange_def sr inr)
  have "buyX pool x = buyX_loop pool (- x) 0" using x0 by (simp add: buyX_def)
  also have "\<dots> = buyX_loop pool1 dX1 ((hi - ?p) * ?L + f)"
    using x0 by (subst buyX_loop.simps) (simp add: seg)
  also have "\<dots> = (Inl OutOfRange, pool1)"
    using rest by (subst buyX_loop.simps) (simp add: out)
  finally show ?thesis using sp1 ps1 by simp
qed

text \<open>A \<^verbatim>\<open>buyX\<close> of more than \<open>liquidity / sqrtPrice\<close> does not fail: its one
  segment steps to a negative price and returns a negative amount.\<close>

lemma buyX_single_beyond_reserve:
  assumes ps: "positions pool = [(i, q)]" and sr: "sqrtRange q = (lo, hi)"
    and L: "0 < liquidity q" and p: "0 < sqrtPrice pool"
    and lo: "lo \<le> sqrtPrice pool" and hi: "sqrtPrice pool < hi"
    and fr: "0 \<le> feeRate pool" "feeRate pool < 1"
    and x: "liquidity q / sqrtPrice pool < x"
  shows "\<exists>y pool'. buyX pool x = (Inr y, pool') \<and> y < 0 \<and> sqrtPrice pool' < 0"
proof -
  let ?L = "liquidity q" and ?p = "sqrtPrice pool"
  define k where "k = 1 + - x / ?L * ?p"
  define g where "g = getDSqrtPrice pool (- x / ?L)"
  have x0: "0 < x"
  proof -
    have "0 < ?L / ?p" using L p by (rule divide_pos_pos)
    with x show ?thesis by simp
  qed
  have xp: "?L < x * ?p" using x p by (simp add: pos_divide_less_eq)
  have "1 < x * ?p / ?L" using xp L pos_less_divide_eq [of ?L 1 "x * ?p"] by simp
  moreover have "k = 1 - x * ?p / ?L" by (simp add: k_def)
  ultimately have k: "k < 0" by simp
  have g_eq: "g = (x / ?L * ?p ^ 2) / k" by (simp add: g_def getDSqrtPrice_def k_def)
  have "0 < x / ?L * ?p ^ 2" using x0 L p by simp
  then have g: "g < 0" unfolding g_eq using k by (rule divide_pos_neg)
  have sum: "?p + g = ?p / k"
  proof -
    have "(?p + g) * k = ?p * k + x / ?L * ?p ^ 2" using k by (simp add: g_eq algebra_simps)
    also have "\<dots> = ?p" by (simp add: k_def power2_eq_square algebra_simps)
    finally show ?thesis using k by (simp add: field_simps)
  qed
  have neg: "?p + g < 0" unfolding sum using p k by (rule divide_pos_neg)
  have inr: "inRange UP ?p q" using lo hi by (simp add: inRange_def sr)
  have r: "getCurrentRange pool UP = Inr (lo, hi)"
    and l: "getLiquidityInCurrentRange pool UP = ?L"
    using single_getCurrentRange [OF ps, of UP] inr sr by simp_all
  have L0: "?L \<noteq> 0" using L by simp
  have k0: "1 + - x / ?L * ?p \<noteq> 0" using k unfolding k_def by (rule less_imp_neq)
  then have ng: "\<not> (1 + - x / ?L * ?p = 0 \<and> 0 < - x / ?L)" by blast
  have step: "(if 1 + - x / ?L * ?p = 0 then snd (lo, hi) - ?p
               else min (getDSqrtPrice pool (- x / ?L)) (snd (lo, hi) - ?p)) = g"
  proof -
    have "min g (hi - ?p) = g" using g hi by simp
    then show ?thesis unfolding g_def using k0 by (simp only: if_False snd_conv)
  qed
  have nz: "?p ^ 2 + ?p * g \<noteq> 0"
  proof -
    have "?p ^ 2 + ?p * g = ?p * (?p + g)" by (simp add: power2_eq_square algebra_simps)
    then show ?thesis using p neg by simp
  qed
  have f1: "feeRate pool \<noteq> 1" using fr(2) by simp
  define f where "f = g * ?L / (1 - feeRate pool) - g * ?L"
  define pool1 where "pool1 = (addFeesToPositions pool f ?L TokenY UP) \<lparr> sqrtPrice := ?p + g \<rparr>"
  have p0: "?p \<noteq> 0" using p by simp
  have inv: "getDInvSqrtPrice pool g = - x / ?L"
    unfolding g_def by (rule getDInv_getDSqrt [OF p0 k0])
  have seg: "buyX_segment pool (- x) 0 = Inr (pool1, 0, g * ?L + f)"
    unfolding buyX_segment_eq [OF r l L0 ng step nz f1] inv
    using L0 by (simp add: pool1_def f_def)
  have y: "g * ?L + f = g * ?L / (1 - feeRate pool)" by (simp add: f_def)
  have "g * ?L < 0" using g L by (rule mult_neg_pos)
  then have yneg: "g * ?L + f < 0" unfolding y using fr(2) by (simp add: divide_neg_pos)
  have "buyX pool x = buyX_loop pool (- x) 0" using x0 by (simp add: buyX_def)
  also have "\<dots> = buyX_loop pool1 0 (g * ?L + f)"
    using x0 by (subst buyX_loop.simps) (simp add: seg)
  also have "\<dots> = (Inr (g * ?L + f), pool1)"
    by (subst buyX_loop.simps) simp
  finally show ?thesis using yneg neg by (auto simp: pool1_def)
qed

lemma sqrt_bounds: "0 < sqrt (10 / 11)" "sqrt (10 / 11) < 1" "1 < sqrt (11 / 10)"
  "sqrt (11 / 10) < 2"
proof -
  show "0 < sqrt (10 / 11)" by simp
  show "sqrt (10 / 11) < 1" by simp
  show "1 < sqrt (11 / 10)" by simp
  have "sqrt (11 / 10) < sqrt 4" by (simp only: real_sqrt_less_iff)
  then show "sqrt (11 / 10) < 2" by simp
qed

lemma onePositionPool_eq:
  "positions onePositionPool = [(''a'', onePosition)]"
  "sqrtPrice onePositionPool = 1" "feeRate onePositionPool = 0"
  by (simp_all add: onePositionPool_def enterPosition_def newPool_def newPosition_ByLiquidity
        onePosition_def toSqrtRange_def)

lemma onePosition_fields:
  "sqrtRange onePosition = toSqrtRange (10 / 11, 11 / 10)"
  "sqrtRange onePosition = (sqrt (10 / 11), sqrt (11 / 10))"
  "liquidity onePosition = 1"
  by (simp_all add: onePosition_def toSqrtRange_def)

text \<open>
  C6, amended. On a pool at price 1 whose single position covers \<open>[1/1.1, 1.1]\<close> with a
  liquidity \<open>L > 0\<close> (fee rate in \<open>[0, 1)\<close>), \<^verbatim>\<open>buyY\<close> of more than the position's Y
  balance \<open>L * (1 - sqrt (1/1.1))\<close>, and \<^verbatim>\<open>buyX\<close> of more than its X balance
  \<open>L * (1 - 1 / sqrt 1.1)\<close> and of at most \<open>L\<close>, do not stop at the bound: the first segment
  moves the price to the bound of the range, and the next one fails in
  \<^verbatim>\<open>getCurrentRange\<close> with "Out of range, no liquidity." (not with "Not enough
  liquidity."), the price staying at the bound.
\<close>

theorem single_position_buy_past_bound:
  assumes "positions pool = [(i, q)]"
    and "sqrtRange q = toSqrtRange (10 / 11, 11 / 10)"
    and "0 < liquidity q" and "sqrtPrice pool = 1"
    and "0 \<le> feeRate pool" and "feeRate pool < 1"
  shows "(liquidity q * (1 - sqrt (10 / 11)) < yDesired \<longrightarrow>
            (\<exists>pool'. buyY pool yDesired = (Inl OutOfRange, pool')
                \<and> sqrtPrice pool' = sqrt (10 / 11)))
       \<and> (liquidity q * (1 - 1 / sqrt (11 / 10)) < xDesired \<and> xDesired \<le> liquidity q \<longrightarrow>
            (\<exists>pool'. buyX pool xDesired = (Inl OutOfRange, pool')
                \<and> sqrtPrice pool' = sqrt (11 / 10)))"
proof (intro conjI impI)
  have sr: "sqrtRange q = (sqrt (10 / 11), sqrt (11 / 10))"
    using assms(2) by (simp add: toSqrtRange_def)
  have fr: "feeRate pool \<noteq> 1" using assms(6) by simp
  {
    assume y: "liquidity q * (1 - sqrt (10 / 11)) < yDesired"
    have "\<exists>pool'. buyY pool yDesired = (Inl OutOfRange, pool') \<and> sqrtPrice pool' = sqrt (10 / 11)
            \<and> map fst (positions pool') = [i]"
      by (rule buyY_single_past_bound [OF assms(1) sr assms(3) _ _ _ fr])
         (use y sqrt_bounds assms(4) in simp_all)
    then show "\<exists>pool'. buyY pool yDesired = (Inl OutOfRange, pool')
                \<and> sqrtPrice pool' = sqrt (10 / 11)" by blast
  }
  {
    assume x: "liquidity q * (1 - 1 / sqrt (11 / 10)) < xDesired \<and> xDesired \<le> liquidity q"
    have "\<exists>pool'. buyX pool xDesired = (Inl OutOfRange, pool') \<and> sqrtPrice pool' = sqrt (11 / 10)
            \<and> map fst (positions pool') = [i]"
      by (rule buyX_single_past_bound [OF assms(1) sr assms(3) _ _ _ fr])
         (use x sqrt_bounds assms(4) in simp_all)
    then show "\<exists>pool'. buyX pool xDesired = (Inl OutOfRange, pool')
                \<and> sqrtPrice pool' = sqrt (11 / 10)" by blast
  }
qed

theorem single_position_buy_past_bound_witness:
  "fst (buyY onePositionPool 1) = Inl OutOfRange
   \<and> sqrtPrice (snd (buyY onePositionPool 1)) = sqrt (10 / 11)
   \<and> fst (buyX onePositionPool (1 / 2)) = Inl OutOfRange
   \<and> sqrtPrice (snd (buyX onePositionPool (1 / 2))) = sqrt (11 / 10)
   \<and> fst (buyX onePositionPool 1) = Inl OutOfRange
   \<and> sqrtPrice (snd (buyX onePositionPool 1)) = sqrt (11 / 10)"
proof -
  let ?q = "onePosition"
  note sr = onePosition_fields(1)
  have L1: "liquidity ?q = 1" by (rule onePosition_fields(3))
  then have L: "0 < liquidity ?q" by simp
  have fr: "0 \<le> feeRate onePositionPool" "feeRate onePositionPool < 1"
    by (simp_all add: onePositionPool_eq)
  have y: "liquidity ?q * (1 - sqrt (10 / 11)) < 1" unfolding L1 by simp
  have half: "1 / 2 < 1 / sqrt (11 / 10)"
    using sqrt_bounds(3,4) by (simp add: field_simps)
  then have x: "liquidity ?q * (1 - 1 / sqrt (11 / 10)) < 1 / 2 \<and> 1 / 2 \<le> liquidity ?q"
    unfolding L1 by simp
  have x': "liquidity ?q * (1 - 1 / sqrt (11 / 10)) < 1 \<and> 1 \<le> liquidity ?q"
    unfolding L1 using sqrt_bounds(3) by simp
  from single_position_buy_past_bound
         [OF onePositionPool_eq(1) sr L onePositionPool_eq(2) fr, of 1 "1 / 2"] y x
  obtain pool' pool'' where a:
      "buyY onePositionPool 1 = (Inl OutOfRange, pool')" "sqrtPrice pool' = sqrt (10 / 11)"
      "buyX onePositionPool (1 / 2) = (Inl OutOfRange, pool'')" "sqrtPrice pool'' = sqrt (11 / 10)"
    by blast
  from single_position_buy_past_bound
         [OF onePositionPool_eq(1) sr L onePositionPool_eq(2) fr, of 1 1] x'
  obtain pool3 where b:
      "buyX onePositionPool 1 = (Inl OutOfRange, pool3)" "sqrtPrice pool3 = sqrt (11 / 10)"
    by blast
  show ?thesis using a b by simp
qed

lemma onePositionPool_buyX_2:
  "buyX_segment onePositionPool (- 2) 0 =
     Inr ((addFeesToPositions onePositionPool 0 1 TokenY UP) \<lparr> sqrtPrice := - 1 \<rparr>, 0, - 2)"
proof -
  have m: "min (- 2) (sqrt (11 / 10) - 1) = - 2"
    using sqrt_bounds(3) by simp
  have sp: "sqrtPrice onePositionPool = 1" by (rule onePositionPool_eq)
  have inr: "inRange UP 1 onePosition"
    using sqrt_bounds by (simp add: inRange_def onePosition_fields(2))
  have r: "getCurrentRange onePositionPool UP = Inr (sqrt (10 / 11), sqrt (11 / 10))"
    and l: "getLiquidityInCurrentRange onePositionPool UP = 1"
    using single_getCurrentRange [OF onePositionPool_eq(1), of UP] inr
    by (simp_all add: onePositionPool_eq onePosition_fields(2,3))
  have d: "getDSqrtPrice onePositionPool (- 2) = - 2"
    by (simp add: getDSqrtPrice_def sp)
  have i: "getDInvSqrtPrice onePositionPool (- 2) = - 2"
    by (simp add: getDInvSqrtPrice_def sp)
  have step: "(if 1 + - 2 / 1 * sqrtPrice onePositionPool = 0
               then snd (sqrt (10 / 11), sqrt (11 / 10)) - sqrtPrice onePositionPool
               else min (getDSqrtPrice onePositionPool (- 2 / 1))
                        (snd (sqrt (10 / 11), sqrt (11 / 10)) - sqrtPrice onePositionPool)) = - 2"
    by (simp add: sp d m)
  have "buyX_segment onePositionPool (- 2) 0 =
     Inr ((addFeesToPositions onePositionPool
              (- 2 * 1 / (1 - feeRate onePositionPool) - - 2 * 1) 1 TokenY UP)
             \<lparr> sqrtPrice := sqrtPrice onePositionPool + - 2 \<rparr>,
          - 2 - 1 * getDInvSqrtPrice onePositionPool (- 2),
          0 + (- 2 * 1 + (- 2 * 1 / (1 - feeRate onePositionPool) - - 2 * 1)))"
    by (rule buyX_segment_eq [OF r l _ _ step]) (simp_all add: onePositionPool_eq)
  then show ?thesis by (simp add: onePositionPool_eq i)
qed

text \<open>
  C6 as stated fails on \<open>onePositionPool\<close>: \<^verbatim>\<open>buyY(1)\<close> asks for more Y than the
  position holds and fails with "Out of range, no liquidity.", which is not the error
  "Not enough liquidity."; and \<^verbatim>\<open>buyX(2)\<close> does not fail at all: it returns \<open>- 2\<close>.
\<close>

theorem single_position_buy_not_insufficient_liquidity:
  "fst (buyY onePositionPool 1) = Inl OutOfRange
   \<and> fst (buyY onePositionPool 1) \<noteq> Inl NotEnoughLiquidity
   \<and> fst (buyX onePositionPool 2) = Inr (- 2)"
proof -
  have "\<exists>pool'. buyY onePositionPool 1 = (Inl OutOfRange, pool')
          \<and> sqrtPrice pool' = sqrt (10 / 11) \<and> map fst (positions pool') = [''a'']"
    by (rule buyY_single_past_bound [OF onePositionPool_eq(1) onePosition_fields(2)])
       (use sqrt_bounds in \<open>simp_all add: onePositionPool_eq onePosition_fields\<close>)
  then have a: "fst (buyY onePositionPool 1) = Inl OutOfRange" by auto
  have "buyX onePositionPool 2 = buyX_loop onePositionPool (- 2) 0"
    by (simp add: buyX_def)
  also have "\<dots> = buyX_loop ((addFeesToPositions onePositionPool 0 1 TokenY UP)
                        \<lparr> sqrtPrice := - 1 \<rparr>) 0 (- 2)"
    by (subst buyX_loop.simps) (simp add: onePositionPool_buyX_2)
  also have "\<dots> = (Inr (- 2), (addFeesToPositions onePositionPool 0 1 TokenY UP)
                        \<lparr> sqrtPrice := - 1 \<rparr>)"
    by (subst buyX_loop.simps) simp
  finally have b: "fst (buyX onePositionPool 2) = Inr (- 2)" by simp
  show ?thesis using a b by simp
qed

subsection \<open>A call that fails after some segments\<close>

lemma segments_then_fail:
  assumes unfold: "\<And>s. loop s =
      (if c s then (case b s of Inl e \<Rightarrow> (Inl e, fst s) | Inr s' \<Rightarrow> loop s') else fin s)"
    and "segments c b n s = Some s1" and "c s1" and "b s1 = Inl e"
  shows "loop s = (Inl e, fst s1)"
  using assms(2)
proof (induction n arbitrary: s)
  case 0
  then have "s = s1" by simp
  then show ?case using assms(3,4) by (subst unfold) simp
next
  case (Suc n)
  from Suc.prems obtain s' where c: "c s" and b: "b s = Inr s'"
    and rest: "segments c b n s' = Some s1"
    by (auto split: if_splits sum.splits)
  have "loop s = loop s'" using c b by (subst unfold) simp
  then show ?case using Suc.IH [OF rest] by simp
qed

lemma segments_progress:
  assumes step: "\<And>s s'. c s \<Longrightarrow> b s = Inr s' \<Longrightarrow> c s' \<Longrightarrow> R s s'"
    and trans: "\<And>s s' s''. R s s' \<Longrightarrow> R s' s'' \<Longrightarrow> R s s''"
    and "segments c b n s = Some s1" and "c s1" and "0 < n"
  shows "R s s1"
  using assms(3,5)
proof (induction n arbitrary: s)
  case 0
  then show ?case by simp
next
  case (Suc n)
  from Suc.prems obtain s' where c: "c s" and b: "b s = Inr s'"
    and rest: "segments c b n s' = Some s1"
    by (auto split: if_splits sum.splits)
  show ?case
  proof (cases n)
    case 0
    with rest have "s' = s1" by simp
    then show ?thesis using step [OF c b] assms(4) by simp
  next
    case (Suc m)
    with rest have c': "c s'" by (auto split: if_splits)
    from Suc have "0 < n" by simp
    from trans [OF step [OF c b c'] Suc.IH [OF rest this]] show ?thesis .
  qed
qed

lemma sellY_fails_after:
  assumes "0 < a" and "sellY_after n pool a = Some (pool1, dX, dY)" and "0 < dY"
    and "sellY_segment (a * feeRate pool) pool1 dX dY = Inl e"
  shows "sellY pool a = (Inl e, pool1)" and "0 < n \<Longrightarrow> sqrtPrice pool < sqrtPrice pool1"
proof -
  let ?c = "\<lambda>(p, dX, dY). dY > (0::real)"
  let ?b = "\<lambda>(p, dX, dY). sellY_segment (a * feeRate pool) p dX dY"
  let ?loop = "\<lambda>(p, dX, dY). sellY_loop (a * feeRate pool) p dX dY"
  have seg: "segments ?c ?b n (pool, 0, a - a * feeRate pool) = Some (pool1, dX, dY)"
    using assms(2) by (simp add: sellY_after_def)
  have "?loop (pool, 0, a - a * feeRate pool) = (Inl e, fst (pool1, dX, dY))"
  proof (rule segments_then_fail [where c = ?c and b = ?b and fin = "\<lambda>(p, dX, dY). (Inr (- dX), p)"])
    fix s :: "Pool \<times> real \<times> real"
    obtain p x y where s: "s = (p, x, y)" by (cases s) auto
    show "?loop s = (if ?c s then (case ?b s of Inl e \<Rightarrow> (Inl e, fst s) | Inr s' \<Rightarrow> ?loop s')
                     else (\<lambda>(p, dX, dY). (Inr (- dX), p)) s)"
      unfolding s by (subst sellY_loop.simps) (simp split: sum.splits)
  qed (use seg assms(3,4) in simp_all)
  then show "sellY pool a = (Inl e, pool1)"
    using assms(1) by (simp add: sellY_def Let_def)
  show "sqrtPrice pool < sqrtPrice pool1" if "0 < n"
  proof -
    have "sqrtPrice (fst (pool, 0::real, a - a * feeRate pool)) < sqrtPrice (fst (pool1, dX, dY))"
    proof (rule segments_progress [where c = ?c and b = ?b
              and R = "\<lambda>s s'. sqrtPrice (fst s) < sqrtPrice (fst s')"])
      fix s s' :: "Pool \<times> real \<times> real"
      assume "?c s" "?b s = Inr s'" "?c s'"
      then show "sqrtPrice (fst s) < sqrtPrice (fst s')"
        by (cases s; cases s') (auto dest: sellY_segment_continue(1))
    qed (use seg assms(3) that in auto)
    then show ?thesis by simp
  qed
qed

lemma segments_cond:
  assumes "segments c b n s = Some s1" and "c s1"
  shows "c s"
  using assms by (cases n) (auto split: if_splits)

lemma buyY_fails_after:
  assumes "0 < a" and "buyY_after n pool a = Some (pool1, dX, dY)" and "dY < 0"
    and "buyY_segment pool1 dX dY = Inl e"
  shows "buyY pool a = (Inl e, pool1)" and "0 < n \<Longrightarrow> sqrtPrice pool1 < sqrtPrice pool"
proof -
  let ?c = "\<lambda>(p, dX, dY). dY < (0::real)"
  let ?b = "\<lambda>(p, dX, dY). buyY_segment p dX dY"
  let ?loop = "\<lambda>(p, dX, dY). buyY_loop p dX dY"
  have seg: "segments ?c ?b n (pool, 0, - a) = Some (pool1, dX, dY)"
    using assms(2) by (simp add: buyY_after_def)
  have "?loop (pool, 0, - a) = (Inl e, fst (pool1, dX, dY))"
  proof (rule segments_then_fail [where c = ?c and b = ?b and fin = "\<lambda>(p, dX, dY). (Inr dX, p)"])
    fix s :: "Pool \<times> real \<times> real"
    obtain p x y where s: "s = (p, x, y)" by (cases s) auto
    show "?loop s = (if ?c s then (case ?b s of Inl e \<Rightarrow> (Inl e, fst s) | Inr s' \<Rightarrow> ?loop s')
                     else (\<lambda>(p, dX, dY). (Inr dX, p)) s)"
      unfolding s by (subst buyY_loop.simps) (simp split: sum.splits)
  qed (use seg assms(3,4) in simp_all)
  then show "buyY pool a = (Inl e, pool1)"
    using assms(1) by (simp add: buyY_def)
  show "sqrtPrice pool1 < sqrtPrice pool" if "0 < n"
  proof -
    have "sqrtPrice (fst (pool1, dX, dY)) < sqrtPrice (fst (pool, 0::real, - a))"
    proof (rule segments_progress [where c = ?c and b = ?b
              and R = "\<lambda>s s'. sqrtPrice (fst s') < sqrtPrice (fst s)"])
      fix s s' :: "Pool \<times> real \<times> real"
      assume "?c s" "?b s = Inr s'" "?c s'"
      then show "sqrtPrice (fst s') < sqrtPrice (fst s)"
        by (cases s; cases s') (auto dest: buyY_segment_continue(1))
    qed (use seg assms(3) that in auto)
    then show ?thesis by simp
  qed
qed

lemma sellX_fails_after:
  assumes "0 < a" and "sellX_after n pool a = Some (pool1, dX, dY)" and "0 < dX"
    and "sellX_segment (a * feeRate pool) pool1 dX dY = Inl e"
  shows "sellX pool a = (Inl e, pool1)" and "0 < n \<Longrightarrow> sqrtPrice pool1 < sqrtPrice pool"
proof -
  let ?c = "\<lambda>(p, dX, dY). dX > (0::real)"
  let ?b = "\<lambda>(p, dX, dY). sellX_segment (a * feeRate pool) p dX dY"
  let ?loop = "\<lambda>(p, dX, dY). sellX_loop (a * feeRate pool) p dX dY"
  have seg: "segments ?c ?b n (pool, a - a * feeRate pool, 0) = Some (pool1, dX, dY)"
    using assms(2) by (simp add: sellX_after_def)
  have "?loop (pool, a - a * feeRate pool, 0) = (Inl e, fst (pool1, dX, dY))"
  proof (rule segments_then_fail [where c = ?c and b = ?b and fin = "\<lambda>(p, dX, dY). (Inr (- dY), p)"])
    fix s :: "Pool \<times> real \<times> real"
    obtain p x y where s: "s = (p, x, y)" by (cases s) auto
    show "?loop s = (if ?c s then (case ?b s of Inl e \<Rightarrow> (Inl e, fst s) | Inr s' \<Rightarrow> ?loop s')
                     else (\<lambda>(p, dX, dY). (Inr (- dY), p)) s)"
      unfolding s by (subst sellX_loop.simps) (simp split: sum.splits)
  qed (use seg assms(3,4) in simp_all)
  then show "sellX pool a = (Inl e, pool1)"
    using assms(1) by (simp add: sellX_def Let_def)
  show "sqrtPrice pool1 < sqrtPrice pool" if "0 < n"
  proof -
    have "sqrtPrice (fst (pool1, dX, dY)) < sqrtPrice (fst (pool, a - a * feeRate pool, 0::real))"
    proof (rule segments_progress [where c = ?c and b = ?b
              and R = "\<lambda>s s'. sqrtPrice (fst s') < sqrtPrice (fst s)"])
      fix s s' :: "Pool \<times> real \<times> real"
      assume "?c s" "?b s = Inr s'" "?c s'"
      then show "sqrtPrice (fst s') < sqrtPrice (fst s)"
        by (cases s; cases s') (auto dest: sellX_segment_continue(1))
    qed (use seg assms(3) that in auto)
    then show ?thesis by simp
  qed
qed

lemma buyX_fails_after:
  assumes "0 < a" and "buyX_after n pool a = Some (pool1, dX, dY)" and "dX < 0"
    and "buyX_segment pool1 dX dY = Inl e"
  shows "buyX pool a = (Inl e, pool1)" and "0 < n \<Longrightarrow> sqrtPrice pool < sqrtPrice pool1"
proof -
  let ?c = "\<lambda>(p, dX, dY). dX < (0::real)"
  let ?b = "\<lambda>(p, dX, dY). buyX_segment p dX dY"
  let ?loop = "\<lambda>(p, dX, dY). buyX_loop p dX dY"
  have seg: "segments ?c ?b n (pool, - a, 0) = Some (pool1, dX, dY)"
    using assms(2) by (simp add: buyX_after_def)
  have "?loop (pool, - a, 0) = (Inl e, fst (pool1, dX, dY))"
  proof (rule segments_then_fail [where c = ?c and b = ?b and fin = "\<lambda>(p, dX, dY). (Inr dY, p)"])
    fix s :: "Pool \<times> real \<times> real"
    obtain p x y where s: "s = (p, x, y)" by (cases s) auto
    show "?loop s = (if ?c s then (case ?b s of Inl e \<Rightarrow> (Inl e, fst s) | Inr s' \<Rightarrow> ?loop s')
                     else (\<lambda>(p, dX, dY). (Inr dY, p)) s)"
      unfolding s by (subst buyX_loop.simps) (simp split: sum.splits)
  qed (use seg assms(3,4) in simp_all)
  then show "buyX pool a = (Inl e, pool1)"
    using assms(1) by (simp add: buyX_def)
  show "sqrtPrice pool < sqrtPrice pool1" if "0 < n"
  proof -
    have "sqrtPrice (fst (pool, - a, 0::real)) < sqrtPrice (fst (pool1, dX, dY))"
    proof (rule segments_progress [where c = ?c and b = ?b
              and R = "\<lambda>s s'. sqrtPrice (fst s) < sqrtPrice (fst s')"])
      fix s s' :: "Pool \<times> real \<times> real"
      assume "?c s" "?b s = Inr s'" "?c s'"
      then show "sqrtPrice (fst s) < sqrtPrice (fst s')"
        by (cases s; cases s') (auto dest: buyX_segment_continue(1))
    qed (use seg assms(3) that in auto)
    then show ?thesis by simp
  qed
qed

lemma movePrice_fails_after:
  assumes "0 \<le> t" and "movePrice_after n pool t = Some (pool1, dX, dY)"
    and "sqrt t \<noteq> sqrtPrice pool1"
    and "movePrice_segment (sqrt t) pool1 dX dY = Inl e"
  shows "movePrice pool t = (Inl e, pool1)"
    and "0 < n \<Longrightarrow> (sqrtPrice pool < sqrtPrice pool1 \<and> sqrtPrice pool1 < sqrt t)
                    \<or> (sqrt t < sqrtPrice pool1 \<and> sqrtPrice pool1 < sqrtPrice pool)"
proof -
  let ?c = "\<lambda>(p, dX :: real, dY :: real). sqrt t - sqrtPrice p \<noteq> 0"
  let ?b = "\<lambda>(p, dX, dY). movePrice_segment (sqrt t) p dX dY"
  let ?loop = "\<lambda>(p, dX, dY). movePrice_loop (sqrt t) p dX dY"
  let ?R = "\<lambda>(s :: Pool \<times> real \<times> real) (s' :: Pool \<times> real \<times> real).
       (sqrtPrice (fst s) < sqrtPrice (fst s') \<and> sqrtPrice (fst s') < sqrt t)
     \<or> (sqrt t < sqrtPrice (fst s') \<and> sqrtPrice (fst s') < sqrtPrice (fst s))"
  have seg: "segments ?c ?b n (pool, 0, 0) = Some (pool1, dX, dY)"
    using assms(2) by (simp add: movePrice_after_def)
  have c1: "?c (pool1, dX, dY)" using assms(3) by simp
  have "?c (pool, 0, 0)" by (rule segments_cond [OF seg c1])
  then have ne: "sqrtPrice pool \<noteq> sqrt t" by auto
  have "?loop (pool, 0, 0) = (Inl e, fst (pool1, dX, dY))"
  proof (rule segments_then_fail [where c = ?c and b = ?b
            and fin = "\<lambda>(p, dX, dY). (Inr \<lparr> amount_x = dX, amount_y = dY \<rparr>, p)"])
    fix s :: "Pool \<times> real \<times> real"
    obtain p x y where s: "s = (p, x, y)" by (cases s) auto
    show "?loop s = (if ?c s then (case ?b s of Inl e \<Rightarrow> (Inl e, fst s) | Inr s' \<Rightarrow> ?loop s')
                     else (\<lambda>(p, dX, dY). (Inr \<lparr> amount_x = dX, amount_y = dY \<rparr>, p)) s)"
      unfolding s by (subst movePrice_loop.simps) (simp split: sum.splits)
  qed (use seg assms(3,4) in simp_all)
  then show "movePrice pool t = (Inl e, pool1)"
    using assms(1) ne by (simp add: movePrice_def Let_def)
  show "(sqrtPrice pool < sqrtPrice pool1 \<and> sqrtPrice pool1 < sqrt t)
          \<or> (sqrt t < sqrtPrice pool1 \<and> sqrtPrice pool1 < sqrtPrice pool)" if "0 < n"
  proof -
    have "?R (pool, 0 :: real, 0 :: real) (pool1, dX, dY)"
    proof (rule segments_progress [where c = ?c and b = ?b and R = ?R and n = n
              and s = "(pool, 0, 0)" and ?s1.0 = "(pool1, dX, dY)"])
      fix s s' :: "Pool \<times> real \<times> real"
      assume a: "?c s" "?b s = Inr s'" "?c s'"
      obtain p x y where s: "s = (p, x, y)" by (cases s) auto
      obtain p' x' y' where s': "s' = (p', x', y')" by (cases s') auto
      from a have sg: "movePrice_segment (sqrt t) p x y = Inr (p', x', y')"
        and n1: "sqrt t \<noteq> sqrtPrice p" and n2: "sqrt t \<noteq> sqrtPrice p'"
        by (auto simp: s s')
      from movePrice_segment_continue [OF sg n1 n2] n1
      show "?R s s'" unfolding s s' by (cases "sqrtPrice p < sqrt t") auto
    next
      fix s s' s'' :: "Pool \<times> real \<times> real"
      assume "?R s s'" "?R s' s''"
      then show "?R s s''" by auto
    qed (use seg c1 that in auto)
    then show ?thesis by simp
  qed
qed

text \<open>
  C7. When \<open>n\<close> passes of the loop of a trade (\<^verbatim>\<open>sellY\<close>, \<^verbatim>\<open>buyY\<close>, \<^verbatim>\<open>sellX\<close>,
  \<^verbatim>\<open>buyX\<close>) or of \<^verbatim>\<open>movePrice\<close> have completed and the next pass throws (an error of
  the code, not \<open>NonFinite\<close>), the call fails with that error and the pool is left as these \<open>n\<close> passes made it, fee rewards
  included: it is not put back as it was before the call. With \<open>n > 0\<close> the pool's price
  has moved: it is above the price before the call for \<^verbatim>\<open>sellY\<close> and \<^verbatim>\<open>buyX\<close>, below
  it for \<^verbatim>\<open>buyY\<close> and \<^verbatim>\<open>sellX\<close>, and strictly between it and the target for
  \<^verbatim>\<open>movePrice\<close>.
\<close>

theorem failed_call_keeps_completed_segments:
  "(0 < a \<and> sellY_after n pool a = Some (pool1, dX, dY) \<and> 0 < dY
      \<and> sellY_segment (a * feeRate pool) pool1 dX dY = Inl e \<and> e \<noteq> NonFinite
     \<longrightarrow> sellY pool a = (Inl e, pool1) \<and> (0 < n \<longrightarrow> sqrtPrice pool < sqrtPrice pool1))
   \<and> (0 < a \<and> buyY_after n pool a = Some (pool1, dX, dY) \<and> dY < 0
      \<and> buyY_segment pool1 dX dY = Inl e \<and> e \<noteq> NonFinite
     \<longrightarrow> buyY pool a = (Inl e, pool1) \<and> (0 < n \<longrightarrow> sqrtPrice pool1 < sqrtPrice pool))
   \<and> (0 < a \<and> sellX_after n pool a = Some (pool1, dX, dY) \<and> 0 < dX
      \<and> sellX_segment (a * feeRate pool) pool1 dX dY = Inl e \<and> e \<noteq> NonFinite
     \<longrightarrow> sellX pool a = (Inl e, pool1) \<and> (0 < n \<longrightarrow> sqrtPrice pool1 < sqrtPrice pool))
   \<and> (0 < a \<and> buyX_after n pool a = Some (pool1, dX, dY) \<and> dX < 0
      \<and> buyX_segment pool1 dX dY = Inl e \<and> e \<noteq> NonFinite
     \<longrightarrow> buyX pool a = (Inl e, pool1) \<and> (0 < n \<longrightarrow> sqrtPrice pool < sqrtPrice pool1))
   \<and> (0 \<le> a \<and> movePrice_after n pool a = Some (pool1, dX, dY) \<and> sqrt a \<noteq> sqrtPrice pool1
      \<and> movePrice_segment (sqrt a) pool1 dX dY = Inl e \<and> e \<noteq> NonFinite
     \<longrightarrow> movePrice pool a = (Inl e, pool1)
        \<and> (0 < n \<longrightarrow> (sqrtPrice pool < sqrtPrice pool1 \<and> sqrtPrice pool1 < sqrt a)
                      \<or> (sqrt a < sqrtPrice pool1 \<and> sqrtPrice pool1 < sqrtPrice pool)))"
proof -
  have sy: "0 < a \<and> sellY_after n pool a = Some (pool1, dX, dY) \<and> 0 < dY
      \<and> sellY_segment (a * feeRate pool) pool1 dX dY = Inl e \<and> e \<noteq> NonFinite
     \<longrightarrow> sellY pool a = (Inl e, pool1) \<and> (0 < n \<longrightarrow> sqrtPrice pool < sqrtPrice pool1)"
    using sellY_fails_after [of a n pool pool1 dX dY e] by blast
  have bY: "0 < a \<and> buyY_after n pool a = Some (pool1, dX, dY) \<and> dY < 0
      \<and> buyY_segment pool1 dX dY = Inl e \<and> e \<noteq> NonFinite
     \<longrightarrow> buyY pool a = (Inl e, pool1) \<and> (0 < n \<longrightarrow> sqrtPrice pool1 < sqrtPrice pool)"
    using buyY_fails_after [of a n pool pool1 dX dY e] by blast
  have sx: "0 < a \<and> sellX_after n pool a = Some (pool1, dX, dY) \<and> 0 < dX
      \<and> sellX_segment (a * feeRate pool) pool1 dX dY = Inl e \<and> e \<noteq> NonFinite
     \<longrightarrow> sellX pool a = (Inl e, pool1) \<and> (0 < n \<longrightarrow> sqrtPrice pool1 < sqrtPrice pool)"
    using sellX_fails_after [of a n pool pool1 dX dY e] by blast
  have bx: "0 < a \<and> buyX_after n pool a = Some (pool1, dX, dY) \<and> dX < 0
      \<and> buyX_segment pool1 dX dY = Inl e \<and> e \<noteq> NonFinite
     \<longrightarrow> buyX pool a = (Inl e, pool1) \<and> (0 < n \<longrightarrow> sqrtPrice pool < sqrtPrice pool1)"
    using buyX_fails_after [of a n pool pool1 dX dY e] by blast
  have mp: "0 \<le> a \<and> movePrice_after n pool a = Some (pool1, dX, dY) \<and> sqrt a \<noteq> sqrtPrice pool1
      \<and> movePrice_segment (sqrt a) pool1 dX dY = Inl e \<and> e \<noteq> NonFinite
     \<longrightarrow> movePrice pool a = (Inl e, pool1)
        \<and> (0 < n \<longrightarrow> (sqrtPrice pool < sqrtPrice pool1 \<and> sqrtPrice pool1 < sqrt a)
                      \<or> (sqrt a < sqrtPrice pool1 \<and> sqrtPrice pool1 < sqrtPrice pool))"
    using movePrice_fails_after [of a n pool pool1 dX dY e] by blast
  show ?thesis
    by (rule conjI [OF sy conjI [OF bY conjI [OF sx conjI [OF bx mp]]]])
qed



lemma twoRangePool_sell8_segment1:
  "sellY_segment 4 twoRangePool 0 4 =
     Inr (\<lparr> positions =
         [(''a'', \<lparr> id_pos = ''a'', sqrtRange = (1, 2), liquidity = 1,
                   initialBalance = \<lparr> amount_x = 1 / 2, amount_y = 0 \<rparr>,
                   rewards = \<lparr> amount_x = 0, amount_y = 1 \<rparr> \<rparr>),
          (''b'', \<lparr> id_pos = ''b'', sqrtRange = (2, 3), liquidity = 1,
                   initialBalance = \<lparr> amount_x = 1 / 6, amount_y = 0 \<rparr>,
                   rewards = \<lparr> amount_x = 0, amount_y = 0 \<rparr> \<rparr>)],
       sqrtPrice = 2, feeRate = 1 / 2 \<rparr>, - (1 / 2), 3)"
  unfolding twoRangePool_eq
  by (simp add: sellY_segment_def segment_eval)

lemma twoRangePool_sell8_segment2:
  "sellY_segment 4 \<lparr> positions =
         [(''a'', \<lparr> id_pos = ''a'', sqrtRange = (1, 2), liquidity = 1,
                   initialBalance = \<lparr> amount_x = 1 / 2, amount_y = 0 \<rparr>,
                   rewards = \<lparr> amount_x = 0, amount_y = 1 \<rparr> \<rparr>),
          (''b'', \<lparr> id_pos = ''b'', sqrtRange = (2, 3), liquidity = 1,
                   initialBalance = \<lparr> amount_x = 1 / 6, amount_y = 0 \<rparr>,
                   rewards = \<lparr> amount_x = 0, amount_y = 0 \<rparr> \<rparr>)],
       sqrtPrice = 2, feeRate = 1 / 2 \<rparr> (- (1 / 2)) 3 =
     Inr (\<lparr> positions =
         [(''a'', \<lparr> id_pos = ''a'', sqrtRange = (1, 2), liquidity = 1,
                   initialBalance = \<lparr> amount_x = 1 / 2, amount_y = 0 \<rparr>,
                   rewards = \<lparr> amount_x = 0, amount_y = 1 \<rparr> \<rparr>),
          (''b'', \<lparr> id_pos = ''b'', sqrtRange = (2, 3), liquidity = 1,
                   initialBalance = \<lparr> amount_x = 1 / 6, amount_y = 0 \<rparr>,
                   rewards = \<lparr> amount_x = 0, amount_y = 4 / 3 \<rparr> \<rparr>)],
       sqrtPrice = 3, feeRate = 1 / 2 \<rparr>, - (2 / 3), 2)"
  by (simp add: sellY_segment_def segment_eval)

lemma twoRangePool_sell8_segment3:
  "sellY_segment 4 \<lparr> positions =
         [(''a'', \<lparr> id_pos = ''a'', sqrtRange = (1, 2), liquidity = 1,
                   initialBalance = \<lparr> amount_x = 1 / 2, amount_y = 0 \<rparr>,
                   rewards = \<lparr> amount_x = 0, amount_y = 1 \<rparr> \<rparr>),
          (''b'', \<lparr> id_pos = ''b'', sqrtRange = (2, 3), liquidity = 1,
                   initialBalance = \<lparr> amount_x = 1 / 6, amount_y = 0 \<rparr>,
                   rewards = \<lparr> amount_x = 0, amount_y = 4 / 3 \<rparr> \<rparr>)],
       sqrtPrice = 3, feeRate = 1 / 2 \<rparr> (- (2 / 3)) 2 = Inl OutOfRange"
  by (simp add: sellY_segment_def segment_eval)

theorem failed_call_keeps_completed_segments_witness:
  "fst (sellY twoRangePool 8) = Inl OutOfRange
   \<and> sqrtPrice twoRangePool = 1
   \<and> sqrtPrice (snd (sellY twoRangePool 8)) = 3
   \<and> map (\<lambda>(i, q). (i, amount_y (rewards q))) (positions twoRangePool)
       = [(''a'', 0), (''b'', 0)]
   \<and> map (\<lambda>(i, q). (i, amount_y (rewards q))) (positions (snd (sellY twoRangePool 8)))
       = [(''a'', 1), (''b'', 4 / 3)]"
proof -
  let ?P2 = "\<lparr> positions =
         [(''a'', \<lparr> id_pos = ''a'', sqrtRange = (1, 2), liquidity = 1,
                   initialBalance = \<lparr> amount_x = 1 / 2, amount_y = 0 \<rparr>,
                   rewards = \<lparr> amount_x = 0, amount_y = 1 \<rparr> \<rparr>),
          (''b'', \<lparr> id_pos = ''b'', sqrtRange = (2, 3), liquidity = 1,
                   initialBalance = \<lparr> amount_x = 1 / 6, amount_y = 0 \<rparr>,
                   rewards = \<lparr> amount_x = 0, amount_y = 4 / 3 \<rparr> \<rparr>)],
       sqrtPrice = 3, feeRate = 1 / 2 \<rparr>"
  have fr: "feeRate twoRangePool = 1 / 2" by (simp add: twoRangePool_eq)
  have after: "sellY_after (Suc (Suc 0)) twoRangePool 8 = Some (?P2, - (2 / 3), 2)"
    by (simp add: sellY_after_def fr twoRangePool_sell8_segment1 twoRangePool_sell8_segment2)
  have fails: "sellY_segment (8 * feeRate twoRangePool) ?P2 (- (2 / 3)) 2 = Inl OutOfRange"
    by (simp add: fr twoRangePool_sell8_segment3)
  from failed_call_keeps_completed_segments
         [of 8 "Suc (Suc 0)" twoRangePool ?P2 "- (2 / 3)" 2 OutOfRange] after fails
  have "sellY twoRangePool 8 = (Inl OutOfRange, ?P2)" by simp
  then show ?thesis by (simp add: twoRangePool_eq)
qed

end
